theory Spec2Isabelle
  imports
    Main
    "HOL-Library.AList"
    "HOL-Library.Char_ord"
    "HOL-Library.List_Lexorder"
    "HOL-Library.Multiset"
begin

section \<open>Core types (core/types.ts, model/entities.ts)\<close>

text \<open>
  \<^verbatim>\<open>ID\<close> is a JavaScript string.  A \<^verbatim>\<open>Timestamp\<close> is an ISO-8601 string that the
  code only ever reads through \<^verbatim>\<open>new Date(ts).getTime()\<close>; it is modelled by that instant
  (milliseconds since the epoch) as an \<open>int\<close>, and the clock \<^verbatim>\<open>new Date()\<close> is an explicit
  parameter \<open>now\<close>.  An optional field \<^verbatim>\<open>f?: T\<close> is \<open>T option\<close>; JavaScript truthiness
  of an optional string (\<^verbatim>\<open>if (task.projectId)\<close>) is \<open>truthy\<close>: present and non-empty.
  Strings are byte strings; \<^verbatim>\<open>toLowerCase\<close> is modelled on the ASCII letters.
\<close>

type_synonym ID = string
type_synonym Timestamp = int

datatype Status = Todo | Doing | Done | Archived
datatype SortDirection = Asc | Desc
datatype SortField = DueAt | Priority | UpdatedAt | CreatedAt | Title

record Task =
  task_id :: ID
  title :: string
  task_notes :: "string option"
  status :: Status
  priority :: int
  projectId :: "ID option"
  task_tags :: "ID list"
  createdAt :: Timestamp
  updatedAt :: Timestamp
  dueAt :: "Timestamp option"
  completedAt :: "Timestamp option"

record Project =
  project_id :: ID
  project_name :: string
  project_order :: int
  parentId :: "ID option"
  project_createdAt :: Timestamp
  project_updatedAt :: Timestamp

record Tag =
  tag_id :: ID
  tag_name :: string
  color :: "string option"
  tag_createdAt :: Timestamp
  tag_updatedAt :: Timestamp

record SearchQuery =
  q_text :: "string option"
  q_statuses :: "Status list option"
  q_priorities :: "int list option"
  q_tags :: "ID list option"
  q_projectId :: "ID option"
  q_dueBefore :: "Timestamp option"
  q_sort :: "(SortField \<times> SortDirection) option"

record TaskListItem =
  task :: Task
  project :: "Project option"
  tagObjects :: "Tag list"
  isOverdue :: bool
  daysUntilDue :: "int option"

definition truthy :: "string option \<Rightarrow> bool" where
  "truthy s = (case s of None \<Rightarrow> False | Some x \<Rightarrow> x \<noteq> [])"

definition toLowerChar :: "char \<Rightarrow> char" where
  "toLowerChar c =
     (if CHR ''A'' \<le> c \<and> c \<le> CHR ''Z'' then char_of (of_char c + (32::nat)) else c)"

definition toLowerCase :: "string \<Rightarrow> string" where
  "toLowerCase s = map toLowerChar s"

definition startsWith :: "string \<Rightarrow> string \<Rightarrow> bool" where
  "startsWith s p = (take (length p) s = p)"

primrec str_includes :: "string \<Rightarrow> string \<Rightarrow> bool" where
  "str_includes [] sub = (sub = [])"
| "str_includes (c # cs) sub = (startsWith (c # cs) sub \<or> str_includes cs sub)"

section \<open>JavaScript Map and Set, in insertion order\<close>

text \<open>
  A \<^verbatim>\<open>Map<K, V>\<close> is an association list in insertion order: \<^verbatim>\<open>get\<close> is \<open>map_of\<close>,
  \<^verbatim>\<open>set\<close> is \<open>AList.update\<close> (overwrite in place, or append), \<^verbatim>\<open>delete\<close> is
  \<open>AList.delete\<close>, \<^verbatim>\<open>keys()\<close> is \<open>map fst\<close>.  A \<^verbatim>\<open>Set<ID>\<close> is a list in insertion
  order: \<^verbatim>\<open>add\<close> appends an element that is not there yet, \<^verbatim>\<open>delete\<close> removes it.
\<close>

definition set_add :: "'a \<Rightarrow> 'a list \<Rightarrow> 'a list" where
  "set_add x xs = (if x \<in> set xs then xs else xs @ [x])"

definition set_delete :: "'a \<Rightarrow> 'a list \<Rightarrow> 'a list" where
  "set_delete x xs = removeAll x xs"

text \<open>
  The bucket idiom of \<^verbatim>\<open>updateTaskIndexes\<close>:
  \<^verbatim>\<open>if (!index.has(k)) index.set(k, new Set()); index.get(k)!.add(id)\<close>,
  and of \<^verbatim>\<open>removeTaskFromIndexes\<close>:
  \<^verbatim>\<open>const b = index.get(k); if (b) { b.delete(id); if (b.size === 0) index.delete(k) }\<close>.
\<close>

definition bucket_add :: "'k \<Rightarrow> ID \<Rightarrow> ('k \<times> ID list) list \<Rightarrow> ('k \<times> ID list) list" where
  "bucket_add k i index =
     (case map_of index k of
        None \<Rightarrow> AList.update k (set_add i []) index
      | Some ids \<Rightarrow> AList.update k (set_add i ids) index)"

definition bucket_remove :: "'k \<Rightarrow> ID \<Rightarrow> ('k \<times> ID list) list \<Rightarrow> ('k \<times> ID list) list" where
  "bucket_remove k i index =
     (case map_of index k of
        None \<Rightarrow> index
      | Some ids \<Rightarrow>
          (if set_delete i ids = [] then AList.delete k index
           else AList.update k (set_delete i ids) index))"

definition bucket :: "('k \<times> ID list) list \<Rightarrow> 'k \<Rightarrow> ID set" where
  "bucket index k = (case map_of index k of None \<Rightarrow> {} | Some ids \<Rightarrow> set ids)"

section \<open>IndexStore (model/services/IndexStore.ts)\<close>

record IndexStore =
  tasks :: "(ID \<times> Task) list"
  projects :: "(ID \<times> Project) list"
  tags :: "(ID \<times> Tag) list"
  tagByName :: "(string \<times> Tag) list"
  tasksByProject :: "(ID \<times> ID list) list"
  tasksByTag :: "(ID \<times> ID list) list"
  tasksByStatus :: "(Status \<times> ID list) list"
  tasksByPriority :: "(int \<times> ID list) list"
  overdueTasks :: "ID list"

definition emptyStore :: IndexStore where
  "emptyStore = \<lparr> tasks = [], projects = [], tags = [], tagByName = [],
     tasksByProject = [], tasksByTag = [], tasksByStatus = [], tasksByPriority = [],
     overdueTasks = [] \<rparr>"

definition overdueAt :: "Timestamp \<Rightarrow> Task \<Rightarrow> bool" where
  "overdueAt now t = (case dueAt t of None \<Rightarrow> False | Some d \<Rightarrow> d < now \<and> status t \<noteq> Done)"

definition updateTaskIndexes :: "Timestamp \<Rightarrow> Task \<Rightarrow> IndexStore \<Rightarrow> IndexStore" where
  "updateTaskIndexes now t st =
     st\<lparr> tasksByProject :=
           (if truthy (projectId t)
            then bucket_add (the (projectId t)) (task_id t) (tasksByProject st)
            else tasksByProject st),
         tasksByTag := fold (\<lambda>tagId. bucket_add tagId (task_id t)) (task_tags t) (tasksByTag st),
         tasksByStatus := bucket_add (status t) (task_id t) (tasksByStatus st),
         tasksByPriority := bucket_add (priority t) (task_id t) (tasksByPriority st),
         overdueTasks :=
           (if overdueAt now t then set_add (task_id t) (overdueTasks st)
            else set_delete (task_id t) (overdueTasks st)) \<rparr>"

definition removeTaskFromIndexes :: "Task \<Rightarrow> IndexStore \<Rightarrow> IndexStore" where
  "removeTaskFromIndexes t st =
     st\<lparr> tasksByProject :=
           (if truthy (projectId t)
            then bucket_remove (the (projectId t)) (task_id t) (tasksByProject st)
            else tasksByProject st),
         tasksByTag := fold (\<lambda>tagId. bucket_remove tagId (task_id t)) (task_tags t) (tasksByTag st),
         tasksByStatus := bucket_remove (status t) (task_id t) (tasksByStatus st),
         tasksByPriority := bucket_remove (priority t) (task_id t) (tasksByPriority st),
         overdueTasks := set_delete (task_id t) (overdueTasks st) \<rparr>"

definition addTask :: "Timestamp \<Rightarrow> Task \<Rightarrow> IndexStore \<Rightarrow> IndexStore" where
  "addTask now t st =
     updateTaskIndexes now t (st\<lparr> tasks := AList.update (task_id t) t (tasks st) \<rparr>)"

definition IndexStore_updateTask :: "Timestamp \<Rightarrow> Task \<Rightarrow> IndexStore \<Rightarrow> IndexStore" where
  "IndexStore_updateTask now t st =
     (let st1 = (case map_of (tasks st) (task_id t) of
                   Some oldTask \<Rightarrow> removeTaskFromIndexes oldTask st
                 | None \<Rightarrow> st)
      in updateTaskIndexes now t (st1\<lparr> tasks := AList.update (task_id t) t (tasks st1) \<rparr>))"

definition removeTask :: "ID \<Rightarrow> IndexStore \<Rightarrow> IndexStore" where
  "removeTask i st =
     (case map_of (tasks st) i of
        Some t \<Rightarrow> (removeTaskFromIndexes t st)\<lparr> tasks := AList.delete i (tasks st) \<rparr>
      | None \<Rightarrow> st)"

definition addProject :: "Project \<Rightarrow> IndexStore \<Rightarrow> IndexStore" where
  "addProject p st = st\<lparr> projects := AList.update (project_id p) p (projects st) \<rparr>"

definition removeProject :: "ID \<Rightarrow> IndexStore \<Rightarrow> IndexStore" where
  "removeProject i st = st\<lparr> projects := AList.delete i (projects st) \<rparr>"

definition addTag :: "Tag \<Rightarrow> IndexStore \<Rightarrow> IndexStore" where
  "addTag g st =
     st\<lparr> tags := AList.update (tag_id g) g (tags st),
         tagByName := AList.update (toLowerCase (tag_name g)) g (tagByName st) \<rparr>"

definition removeTag :: "ID \<Rightarrow> IndexStore \<Rightarrow> IndexStore" where
  "removeTag i st =
     (case map_of (tags st) i of
        Some g \<Rightarrow> st\<lparr> tagByName := AList.delete (toLowerCase (tag_name g)) (tagByName st),
                      tags := AList.delete i (tags st) \<rparr>
      | None \<Rightarrow> st)"

definition IndexStore_updateProject :: "Project \<Rightarrow> IndexStore \<Rightarrow> IndexStore" where
  "IndexStore_updateProject p st = st\<lparr> projects := AList.update (project_id p) p (projects st) \<rparr>"

definition IndexStore_updateTag :: "Tag \<Rightarrow> IndexStore \<Rightarrow> IndexStore" where
  "IndexStore_updateTag g st =
     (let byName = (case map_of (tags st) (tag_id g) of
                      Some oldTag \<Rightarrow> AList.delete (toLowerCase (tag_name oldTag)) (tagByName st)
                    | None \<Rightarrow> tagByName st)
      in st\<lparr> tags := AList.update (tag_id g) g (tags st),
              tagByName := AList.update (toLowerCase (tag_name g)) g byName \<rparr>)"

definition getTask :: "IndexStore \<Rightarrow> ID \<Rightarrow> Task option" where
  "getTask st i = map_of (tasks st) i"

definition getTag :: "IndexStore \<Rightarrow> ID \<Rightarrow> Tag option" where
  "getTag st i = map_of (tags st) i"

definition getAllProjects :: "IndexStore \<Rightarrow> Project list" where
  "getAllProjects st = map snd (projects st)"

definition getTagByName :: "IndexStore \<Rightarrow> string \<Rightarrow> Tag option" where
  "getTagByName st name = map_of (tagByName st) (toLowerCase name)"

subsection \<open>searchTasks\<close>

text \<open>
  A list-valued filter field counts as given when \<^verbatim>\<open>query.f && query.f.length > 0\<close>.
\<close>

definition nonEmpty :: "'a list option \<Rightarrow> bool" where
  "nonEmpty xs = (case xs of None \<Rightarrow> False | Some l \<Rightarrow> l \<noteq> [])"

text \<open>
  The set built by
  \<^verbatim>\<open>keys.forEach(k => { const ids = index.get(k); if (ids) ids.forEach(id => acc.add(id)) })\<close>.
\<close>

definition unionBuckets :: "('k \<times> ID list) list \<Rightarrow> 'k list \<Rightarrow> ID list" where
  "unionBuckets index ks =
     fold (\<lambda>k acc. case map_of index k of None \<Rightarrow> acc | Some ids \<Rightarrow> fold set_add ids acc) ks []"

definition dueBeforeFilter :: "IndexStore \<Rightarrow> Timestamp \<Rightarrow> ID \<Rightarrow> bool" where
  "dueBeforeFilter st dueDate i =
     (case map_of (tasks st) i of
        None \<Rightarrow> False
      | Some t \<Rightarrow> (case dueAt t of None \<Rightarrow> False | Some d \<Rightarrow> d \<le> dueDate))"

definition textFilter :: "IndexStore \<Rightarrow> string \<Rightarrow> ID \<Rightarrow> bool" where
  "textFilter st searchText i =
     (case map_of (tasks st) i of
        None \<Rightarrow> False
      | Some t \<Rightarrow>
          str_includes (toLowerCase (title t)) searchText \<or>
          (truthy (task_notes t) \<and> str_includes (toLowerCase (the (task_notes t))) searchText))"

text \<open>
  The filter blocks of \<^verbatim>\<open>searchTasks\<close> (lines 163-224), one function per block; each
  takes the current \<^verbatim>\<open>taskIds\<close> and returns the next.
\<close>

definition byStatuses :: "IndexStore \<Rightarrow> SearchQuery \<Rightarrow> ID list" where
  "byStatuses st query =
     (if nonEmpty (q_statuses query)
      then unionBuckets (tasksByStatus st) (the (q_statuses query))
      else map fst (tasks st))"

definition byPriorities :: "IndexStore \<Rightarrow> SearchQuery \<Rightarrow> ID list \<Rightarrow> ID list" where
  "byPriorities st query taskIds =
     (if nonEmpty (q_priorities query)
      then filter (\<lambda>i. i \<in> set (unionBuckets (tasksByPriority st) (the (q_priorities query))))
             taskIds
      else taskIds)"

definition byTags :: "IndexStore \<Rightarrow> SearchQuery \<Rightarrow> ID list \<Rightarrow> ID list" where
  "byTags st query taskIds =
     (if nonEmpty (q_tags query)
      then filter (\<lambda>i. i \<in> set (unionBuckets (tasksByTag st) (the (q_tags query)))) taskIds
      else taskIds)"

definition byProject :: "IndexStore \<Rightarrow> SearchQuery \<Rightarrow> ID list \<Rightarrow> ID list" where
  "byProject st query taskIds =
     (if truthy (q_projectId query)
      then (case map_of (tasksByProject st) (the (q_projectId query)) of
              Some projectIds \<Rightarrow> filter (\<lambda>i. i \<in> set projectIds) taskIds
            | None \<Rightarrow> [])
      else taskIds)"

definition byDueBefore :: "IndexStore \<Rightarrow> SearchQuery \<Rightarrow> ID list \<Rightarrow> ID list" where
  "byDueBefore st query taskIds =
     (case q_dueBefore query of
        Some dueDate \<Rightarrow> filter (dueBeforeFilter st dueDate) taskIds
      | None \<Rightarrow> taskIds)"

definition byText :: "IndexStore \<Rightarrow> SearchQuery \<Rightarrow> ID list \<Rightarrow> ID list" where
  "byText st query taskIds =
     (if truthy (q_text query)
      then filter (textFilter st (toLowerCase (the (q_text query)))) taskIds
      else taskIds)"

text \<open>The id set \<^verbatim>\<open>taskIds\<close> of \<^verbatim>\<open>searchTasks\<close> when hydration starts (lines 156-225).\<close>

definition searchIds :: "IndexStore \<Rightarrow> SearchQuery \<Rightarrow> ID list" where
  "searchIds st query =
     (if \<not> truthy (q_text query) \<and> q_statuses query = None \<and> q_priorities query = None \<and>
         q_tags query = None \<and> \<not> truthy (q_projectId query) \<and> q_dueBefore query = None
      then map fst (tasks st)
      else byText st query (byDueBefore st query (byProject st query
             (byTags st query (byPriorities st query (byStatuses st query))))))"

text \<open>
  \<^verbatim>\<open>Math.ceil((due - now) / (1000 * 60 * 60 * 24))\<close> on integers; the clock is read once
  per query in the model.
\<close>

definition hydrate :: "IndexStore \<Rightarrow> Timestamp \<Rightarrow> ID \<Rightarrow> TaskListItem option" where
  "hydrate st now taskId =
     (case map_of (tasks st) taskId of
        None \<Rightarrow> None
      | Some t \<Rightarrow>
          Some \<lparr> task = t,
                 project = (if truthy (projectId t)
                            then map_of (projects st) (the (projectId t)) else None),
                 tagObjects = List.map_filter (\<lambda>tagId. map_of (tags st) tagId) (task_tags t),
                 isOverdue = (case dueAt t of
                                Some d \<Rightarrow> d < now \<and> status t \<noteq> Done
                              | None \<Rightarrow> False),
                 daysUntilDue = (case dueAt t of
                                   Some d \<Rightarrow> Some (- ((now - d) div (1000 * 60 * 60 * 24)))
                                 | None \<Rightarrow> None) \<rparr>)"

definition MAX_SAFE_INTEGER :: int where
  "MAX_SAFE_INTEGER = 9007199254740991"

text \<open>
  The tail of the comparator: \<^verbatim>\<open>if (a < b) return dir === 'asc' ? -1 : 1;
  if (a > b) return dir === 'asc' ? 1 : -1; return 0\<close>.
\<close>

definition compareValues :: "SortDirection \<Rightarrow> 'a::linorder \<Rightarrow> 'a \<Rightarrow> int" where
  "compareValues dir aValue bValue =
     (if aValue < bValue then (if dir = Asc then - 1 else 1)
      else if aValue > bValue then (if dir = Asc then 1 else - 1)
      else 0)"

definition dueKey :: "Task \<Rightarrow> int" where
  "dueKey t = (case dueAt t of Some d \<Rightarrow> d | None \<Rightarrow> MAX_SAFE_INTEGER)"

definition compareItems :: "SortField \<Rightarrow> SortDirection \<Rightarrow> TaskListItem \<Rightarrow> TaskListItem \<Rightarrow> int" where
  "compareItems field dir a b =
     (case field of
        Title \<Rightarrow> compareValues dir (toLowerCase (title (task a))) (toLowerCase (title (task b)))
      | Priority \<Rightarrow> compareValues dir (priority (task a)) (priority (task b))
      | CreatedAt \<Rightarrow> compareValues dir (createdAt (task a)) (createdAt (task b))
      | UpdatedAt \<Rightarrow> compareValues dir (updatedAt (task a)) (updatedAt (task b))
      | DueAt \<Rightarrow> compareValues dir (dueKey (task a)) (dueKey (task b)))"

text \<open>
  \<^verbatim>\<open>Array.prototype.sort(compare)\<close> is a stable sort (ECMAScript 2019); it is modelled by
  the stable insertion sort: an element goes in front of the first later element it does not
  compare greater than.
\<close>

fun insertBy :: "('a \<Rightarrow> 'a \<Rightarrow> int) \<Rightarrow> 'a \<Rightarrow> 'a list \<Rightarrow> 'a list" where
  "insertBy c x [] = [x]"
| "insertBy c x (y # ys) = (if c x y \<le> 0 then x # y # ys else y # insertBy c x ys)"

definition array_sort :: "('a \<Rightarrow> 'a \<Rightarrow> int) \<Rightarrow> 'a list \<Rightarrow> 'a list" where
  "array_sort c xs = foldr (insertBy c) xs []"

definition searchTasks :: "IndexStore \<Rightarrow> Timestamp \<Rightarrow> SearchQuery \<Rightarrow> TaskListItem list" where
  "searchTasks st now query =
     (let results = List.map_filter (hydrate st now) (searchIds st query)
      in case q_sort query of
           None \<Rightarrow> results
         | Some (field, dir) \<Rightarrow> array_sort (compareItems field dir) results)"

section \<open>Factories and validation (model/validation.ts)\<close>

text \<open>
  \<^verbatim>\<open>generateId()\<close> (a fresh UUID) and \<^verbatim>\<open>getCurrentTimestamp()\<close> are the parameters
  \<open>newId\<close> and \<open>now\<close>.  In an input record a field that the caller left out is \<open>None\<close>.
\<close>

record CreateTaskInput =
  ct_title :: string
  ct_notes :: "string option"
  ct_status :: "Status option"
  ct_priority :: "int option"
  ct_projectId :: "ID option"
  ct_tags :: "ID list option"
  ct_dueAt :: "Timestamp option"

record UpdateTaskInput =
  ut_id :: ID
  ut_title :: "string option"
  ut_notes :: "string option"
  ut_status :: "Status option"
  ut_priority :: "int option"
  ut_projectId :: "ID option"
  ut_tags :: "ID list option"
  ut_dueAt :: "Timestamp option"

record CreateTagInput =
  cg_name :: string
  cg_color :: "string option"

definition createTask :: "Timestamp \<Rightarrow> ID \<Rightarrow> CreateTaskInput \<Rightarrow> Task" where
  "createTask now newId input =
     \<lparr> task_id = newId,
       title = ct_title input,
       task_notes = ct_notes input,
       status = (case ct_status input of Some s \<Rightarrow> s | None \<Rightarrow> Todo),
       priority = (case ct_priority input of Some p \<Rightarrow> p | None \<Rightarrow> 3),
       projectId = ct_projectId input,
       task_tags = (case ct_tags input of Some ts \<Rightarrow> ts | None \<Rightarrow> []),
       createdAt = now,
       updatedAt = now,
       dueAt = ct_dueAt input,
       completedAt = (if ct_status input = Some Done then Some now else None) \<rparr>"

definition updateTask :: "Timestamp \<Rightarrow> Task \<Rightarrow> UpdateTaskInput \<Rightarrow> Task" where
  "updateTask now t input =
     (let u1 = (case ut_title input of Some x \<Rightarrow> t\<lparr> title := x \<rparr> | None \<Rightarrow> t);
          u2 = (case ut_notes input of Some x \<Rightarrow> u1\<lparr> task_notes := Some x \<rparr> | None \<Rightarrow> u1);
          u3 = (case ut_status input of
                  Some s \<Rightarrow> u2\<lparr> status := s,
                                completedAt := (if s = Done then Some now else None) \<rparr>
                | None \<Rightarrow> u2);
          u4 = (case ut_priority input of Some x \<Rightarrow> u3\<lparr> priority := x \<rparr> | None \<Rightarrow> u3);
          u5 = (case ut_projectId input of Some x \<Rightarrow> u4\<lparr> projectId := Some x \<rparr> | None \<Rightarrow> u4);
          u6 = (case ut_tags input of Some x \<Rightarrow> u5\<lparr> task_tags := x \<rparr> | None \<Rightarrow> u5);
          u7 = (case ut_dueAt input of Some x \<Rightarrow> u6\<lparr> dueAt := Some x \<rparr> | None \<Rightarrow> u6)
      in u7\<lparr> updatedAt := now \<rparr>)"

definition createTag :: "Timestamp \<Rightarrow> ID \<Rightarrow> CreateTagInput \<Rightarrow> Tag" where
  "createTag now newId input =
     \<lparr> tag_id = newId, tag_name = cg_name input, color = cg_color input,
       tag_createdAt = now, tag_updatedAt = now \<rparr>"

definition isSpace :: "char \<Rightarrow> bool" where
  "isSpace c = (c \<in> set [CHR 0x09, CHR 0x0A, CHR 0x0B, CHR 0x0C, CHR 0x0D, CHR '' ''])"

definition trim :: "string \<Rightarrow> string" where
  "trim s = rev (dropWhile isSpace (rev (dropWhile isSpace s)))"

definition isHex :: "char \<Rightarrow> bool" where
  "isHex c = (c \<in> set ''0123456789abcdefABCDEF'')"

text \<open>\<^verbatim>\<open>/^[0-9a-f]{8}-[0-9a-f]{4}-4[0-9a-f]{3}-[89ab][0-9a-f]{3}-[0-9a-f]{12}$/i\<close>\<close>

definition isValidUuid :: "string \<Rightarrow> bool" where
  "isValidUuid u =
     (length u = 36 \<and>
      list_all isHex (take 8 u) \<and> u ! 8 = CHR ''-'' \<and>
      list_all isHex (take 4 (drop 9 u)) \<and> u ! 13 = CHR ''-'' \<and>
      u ! 14 = CHR ''4'' \<and> list_all isHex (take 3 (drop 15 u)) \<and> u ! 18 = CHR ''-'' \<and>
      u ! 19 \<in> set ''89abAB'' \<and> list_all isHex (take 3 (drop 20 u)) \<and> u ! 23 = CHR ''-'' \<and>
      list_all isHex (drop 24 u))"

text \<open>
  \<^verbatim>\<open>isValidTimestamp\<close> on the instant a timestamp denotes: \<^verbatim>\<open>!isNaN(date.getTime())\<close>
  holds exactly for the time values a \<^verbatim>\<open>Date\<close> can hold.  Its second conjunct compares
  string forms and has no counterpart on instants.
\<close>

definition isValidTimestamp :: "Timestamp \<Rightarrow> bool" where
  "isValidTimestamp ts = (- 8640000000000000 \<le> ts \<and> ts \<le> 8640000000000000)"

definition isValidColor :: "string \<Rightarrow> bool" where
  "isValidColor c =
     ((length c = 7 \<and> hd c = CHR ''#'' \<and> list_all isHex (tl c)) \<or>
      toLowerCase c \<in> set [''black'', ''red'', ''green'', ''yellow'', ''blue'', ''magenta'',
        ''cyan'', ''white'', ''lightblack'', ''lightred'', ''lightgreen'', ''lightyellow'',
        ''lightblue'', ''lightmagenta'', ''lightcyan'', ''lightwhite''])"

text \<open>A \<^verbatim>\<open>ValidationError\<close> is its field and message.\<close>

type_synonym ValidationError = "string \<times> string"

definition validateTaskInput :: "UpdateTaskInput \<Rightarrow> ValidationError list" where
  "validateTaskInput input =
     (case ut_title input of
        Some x \<Rightarrow> if x = [] \<or> trim x = [] then [(''title'', ''Title is required'')] else []
      | None \<Rightarrow> []) @
     (case ut_title input of
        Some x \<Rightarrow> if x \<noteq> [] \<and> length x > 200
                  then [(''title'', ''Title must be 200 characters or less'')] else []
      | None \<Rightarrow> []) @
     (case ut_priority input of
        Some p \<Rightarrow> if p \<notin> set [1, 2, 3, 4, 5]
                  then [(''priority'', ''Priority must be between 1 and 5'')] else []
      | None \<Rightarrow> []) @
     (case ut_status input of
        Some s \<Rightarrow> if s \<notin> set [Todo, Doing, Done, Archived]
                  then [(''status'', ''Status must be one of: todo, doing, done, archived'')]
                  else []
      | None \<Rightarrow> []) @
     (case ut_dueAt input of
        Some d \<Rightarrow> if \<not> isValidTimestamp d
                  then [(''dueAt'', ''Due date must be a valid ISO timestamp'')] else []
      | None \<Rightarrow> []) @
     (case ut_tags input of
        Some ts \<Rightarrow> if list_ex (\<lambda>tag. \<not> isValidUuid tag) ts
                   then [(''tags'', ''All tags must be valid UUIDs'')] else []
      | None \<Rightarrow> [])"

definition validateTagInput :: "CreateTagInput \<Rightarrow> ValidationError list" where
  "validateTagInput input =
     (if cg_name input = [] \<or> trim (cg_name input) = []
      then [(''name'', ''Name is required'')] else []) @
     (if cg_name input \<noteq> [] \<and> length (cg_name input) > 50
      then [(''name'', ''Name must be 50 characters or less'')] else []) @
     (case cg_color input of
        Some c \<Rightarrow> if c \<noteq> [] \<and> \<not> isValidColor c
                  then [(''color'', ''Color must be a valid hex color or blessed color name'')]
                  else []
      | None \<Rightarrow> [])"

section \<open>Services (TaskService.ts, DataRepository.ts)\<close>

text \<open>
  \<^verbatim>\<open>Result<T>\<close> is \<open>Error + T\<close>: \<^verbatim>\<open>failure(new Error(msg))\<close> is \<open>Inl (Error msg)\<close>,
  \<^verbatim>\<open>success(x)\<close> is \<open>Inr x\<close>.  A service method returns its result and the store it leaves.
\<close>

datatype Error = Error string

primrec join :: "string \<Rightarrow> string list \<Rightarrow> string" where
  "join sep [] = []"
| "join sep (x # xs) = (if xs = [] then x else x @ sep @ join sep xs)"

definition validationFailed :: "ValidationError list \<Rightarrow> Error" where
  "validationFailed errors = Error (''Validation failed: '' @ join '', '' (map snd errors))"

definition TaskService_update ::
  "Timestamp \<Rightarrow> UpdateTaskInput \<Rightarrow> IndexStore \<Rightarrow> (Error + Task) \<times> IndexStore" where
  "TaskService_update now input st =
     (case getTask st (ut_id input) of
        None \<Rightarrow> (Inl (Error (''Task with ID '' @ ut_id input @ '' not found'')), st)
      | Some existingTask \<Rightarrow>
          (let errors = validateTaskInput input in
           if length errors > 0 then (Inl (validationFailed errors), st)
           else
             (let updatedTask = updateTask now existingTask input
              in (Inr updatedTask, IndexStore_updateTask now updatedTask st))))"

definition TaskService_remove :: "ID \<Rightarrow> IndexStore \<Rightarrow> (Error + unit) \<times> IndexStore" where
  "TaskService_remove i st =
     (case getTask st i of
        None \<Rightarrow> (Inl (Error (''Task with ID '' @ i @ '' not found'')), st)
      | Some t \<Rightarrow> (Inr (), removeTask i st))"

definition TagService_create ::
  "Timestamp \<Rightarrow> ID \<Rightarrow> CreateTagInput \<Rightarrow> IndexStore \<Rightarrow> (Error + Tag) \<times> IndexStore" where
  "TagService_create now newId input st =
     (let errors = validateTagInput input in
      if length errors > 0 then (Inl (validationFailed errors), st)
      else (let tag = createTag now newId input in (Inr tag, addTag tag st)))"

definition TagService_getOrCreate ::
  "Timestamp \<Rightarrow> ID \<Rightarrow> string \<Rightarrow> string option \<Rightarrow> IndexStore \<Rightarrow> (Error + Tag) \<times> IndexStore"
  where
  "TagService_getOrCreate now newId name col st =
     (case getTagByName st name of
        Some existing \<Rightarrow> (Inr existing, st)
      | None \<Rightarrow> TagService_create now newId \<lparr> cg_name = name, cg_color = col \<rparr> st)"

section \<open>SearchService.parseQuery (SearchService.ts)\<close>

text \<open>
  \<^verbatim>\<open>queryString.trim().split(/\s+/)\<close>: \<open>splitWs\<close> cuts at runs of white space and carries
  the token being read; on the empty string the result is the single empty token, as in
  JavaScript.
\<close>

primrec splitWs :: "string \<Rightarrow> string \<Rightarrow> string list" where
  "splitWs [] cur = [cur]"
| "splitWs (c # cs) cur =
     (if isSpace c then (if cur = [] then splitWs cs [] else cur # splitWs cs [])
      else splitWs cs (cur @ [c]))"

definition tokenize :: "string \<Rightarrow> string list" where
  "tokenize queryString = splitWs (trim queryString) []"

text \<open>\<^verbatim>\<open>str.split(':')\<close>\<close>

primrec splitColon :: "string \<Rightarrow> string \<Rightarrow> string list" where
  "splitColon [] cur = [cur]"
| "splitColon (c # cs) cur =
     (if c = CHR '':'' then cur # splitColon cs [] else splitColon cs (cur @ [c]))"

definition statusOfString :: "string \<Rightarrow> Status option" where
  "statusOfString s =
     (if s = ''todo'' then Some Todo else if s = ''doing'' then Some Doing
      else if s = ''done'' then Some Done else if s = ''archived'' then Some Archived
      else None)"

definition fieldOfString :: "string \<Rightarrow> SortField option" where
  "fieldOfString s =
     (if s = ''title'' then Some Title else if s = ''priority'' then Some Priority
      else if s = ''createdAt'' then Some CreatedAt else if s = ''updatedAt'' then Some UpdatedAt
      else if s = ''dueAt'' then Some DueAt else None)"

definition dirOfString :: "string \<Rightarrow> SortDirection option" where
  "dirOfString s = (if s = ''asc'' then Some Asc else if s = ''desc'' then Some Desc else None)"

text \<open>
  \<^verbatim>\<open>parseInt\<close> without a radix on a string free of white space: an optional sign, a
  \<^verbatim>\<open>0x\<close> prefix selecting base 16, then the longest run of digits; \<open>None\<close> is \<^verbatim>\<open>NaN\<close>.
\<close>

definition digitValue :: "char \<Rightarrow> nat option" where
  "digitValue c =
     (if CHR ''0'' \<le> c \<and> c \<le> CHR ''9'' then Some (of_char c - 48)
      else if CHR ''a'' \<le> c \<and> c \<le> CHR ''z'' then Some (of_char c - 87)
      else if CHR ''A'' \<le> c \<and> c \<le> CHR ''Z'' then Some (of_char c - 55)
      else None)"

definition parseDigits :: "nat \<Rightarrow> string \<Rightarrow> nat option" where
  "parseDigits radix s =
     (let ds = takeWhile (\<lambda>c. case digitValue c of Some d \<Rightarrow> d < radix | None \<Rightarrow> False) s
      in if ds = [] then None
         else Some (foldl (\<lambda>acc c. acc * radix + the (digitValue c)) 0 ds))"

definition parseInt :: "string \<Rightarrow> int option" where
  "parseInt s =
     (let sgn = (if startsWith s ''-'' then - 1 else 1);
          r = (if startsWith s ''-'' \<or> startsWith s ''+'' then drop 1 s else s);
          n = (if startsWith r ''0x'' \<or> startsWith r ''0X'' then parseDigits 16 (drop 2 r)
               else parseDigits 10 r)
      in map_option (\<lambda>k. sgn * int k) n)"

definition emptyQuery :: SearchQuery where
  "emptyQuery = \<lparr> q_text = None, q_statuses = None, q_priorities = None, q_tags = None,
     q_projectId = None, q_dueBefore = None, q_sort = None \<rparr>"

text \<open>\<^verbatim>\<open>arr = arr || []; if (!arr.includes(x)) arr.push(x)\<close>\<close>

definition pushUnique :: "'a \<Rightarrow> 'a list option \<Rightarrow> 'a list option" where
  "pushUnique x arr =
     (let l = (case arr of Some l \<Rightarrow> l | None \<Rightarrow> [])
      in Some (if x \<in> set l then l else l @ [x]))"

text \<open>\<^verbatim>\<open>query.text = query.text ? `${query.text} ${token}` : token\<close>\<close>

definition appendText :: "string \<Rightarrow> SearchQuery \<Rightarrow> SearchQuery" where
  "appendText token query =
     query\<lparr> q_text := Some (if truthy (q_text query)
                            then the (q_text query) @ '' '' @ token else token) \<rparr>"

definition addTagFilter :: "IndexStore \<Rightarrow> string \<Rightarrow> SearchQuery \<Rightarrow> SearchQuery" where
  "addTagFilter st tagName query =
     (case getTagByName st tagName of
        Some tag \<Rightarrow> query\<lparr> q_tags := pushUnique (tag_id tag) (q_tags query) \<rparr>
      | None \<Rightarrow> query)"

text \<open>
  \<^verbatim>\<open>parseDueDate\<close> builds its dates with the runtime's \<^verbatim>\<open>Date\<close>, in the local time zone.
  A \<open>DateRuntime\<close> holds what those expressions evaluate to: the instants of local midnight
  today (\<^verbatim>\<open>new Date(y, m, d)\<close> of the clock), of that date after \<^verbatim>\<open>setDate(getDate() + 1)\<close>,
  after \<^verbatim>\<open>setDate(getDate() + 7)\<close> and after \<^verbatim>\<open>setMonth(getMonth() + 1)\<close>; the date
  \<^verbatim>\<open>new Date(dueStr)\<close> of a \<^verbatim>\<open>YYYY-MM-DD\<close> string; and today after
  \<^verbatim>\<open>setDate(getDate() + days)\<close>.  The last two are \<open>None\<close> when the result is an Invalid
  Date.  \<^verbatim>\<open>toISOString()\<close> throws \<^verbatim>\<open>RangeError\<close> on an Invalid Date; nothing in
  \<^verbatim>\<open>parseDueDate\<close> or \<^verbatim>\<open>parseQuery\<close> catches it, so a throwing token ends the parse:
  a thrown exception is \<open>Inl\<close>, a returned value \<open>Inr\<close>.
\<close>

datatype Thrown = RangeError string

record DateRuntime =
  today :: Timestamp
  tomorrow :: Timestamp
  endOfWeek :: Timestamp
  endOfMonth :: Timestamp
  dateOfString :: "string \<Rightarrow> Timestamp option"
  todayPlusDays :: "int \<Rightarrow> Timestamp option"

definition toISOString :: "Timestamp option \<Rightarrow> Thrown + Timestamp" where
  "toISOString d =
     (case d of None \<Rightarrow> Inl (RangeError ''Invalid time value'') | Some ts \<Rightarrow> Inr ts)"

definition isDigit :: "char \<Rightarrow> bool" where
  "isDigit c = (CHR ''0'' \<le> c \<and> c \<le> CHR ''9'')"

text \<open>\<^verbatim>\<open>/^\d{4}-\d{2}-\d{2}$/\<close> and \<^verbatim>\<open>/^\+(\d+)d$/\<close>\<close>

definition isIsoDate :: "string \<Rightarrow> bool" where
  "isIsoDate s =
     (length s = 10 \<and> list_all isDigit (take 4 s) \<and> s ! 4 = CHR ''-'' \<and>
      list_all isDigit (take 2 (drop 5 s)) \<and> s ! 7 = CHR ''-'' \<and> list_all isDigit (drop 8 s))"

definition isPlusDays :: "string \<Rightarrow> bool" where
  "isPlusDays s =
     (length s \<ge> 3 \<and> hd s = CHR ''+'' \<and> last s = CHR ''d'' \<and> list_all isDigit (butlast (tl s)))"

definition parseDueDate :: "DateRuntime \<Rightarrow> string \<Rightarrow> Thrown + Timestamp option" where
  "parseDueDate rt dueStr =
     (let l = toLowerCase dueStr in
      if l = ''today'' then map_sum id Some (toISOString (Some (today rt)))
      else if l = ''tomorrow'' then map_sum id Some (toISOString (Some (tomorrow rt)))
      else if l = ''week'' \<or> l = ''this-week''
        then map_sum id Some (toISOString (Some (endOfWeek rt)))
      else if l = ''month'' \<or> l = ''this-month''
        then map_sum id Some (toISOString (Some (endOfMonth rt)))
      else if isIsoDate dueStr then map_sum id Some (toISOString (dateOfString rt dueStr))
      else if isPlusDays dueStr then
        (case parseInt (butlast (tl dueStr)) of
           Some days \<Rightarrow> map_sum id Some (toISOString (todayPlusDays rt days))
         | None \<Rightarrow> map_sum id Some (toISOString None))
      else Inr None)"

text \<open>One iteration of the token loop: the query after the token, or the exception thrown.\<close>

definition parseToken ::
  "IndexStore \<Rightarrow> DateRuntime \<Rightarrow> string \<Rightarrow> SearchQuery \<Rightarrow> Thrown + SearchQuery" where
  "parseToken st rt token query =
     (if startsWith token ''status:'' then
        (case statusOfString (drop 7 token) of
           Some s \<Rightarrow> Inr (query\<lparr> q_statuses := pushUnique s (q_statuses query) \<rparr>)
         | None \<Rightarrow> Inr query)
      else if startsWith token ''priority:'' then
        (case parseInt (drop 9 token) of
           Some p \<Rightarrow> if p \<ge> 1 \<and> p \<le> 5
                     then Inr (query\<lparr> q_priorities := pushUnique p (q_priorities query) \<rparr>)
                     else Inr query
         | None \<Rightarrow> Inr query)
      else if startsWith token ''tag:'' then Inr (addTagFilter st (drop 4 token) query)
      else if startsWith token ''project:'' then
        (case find (\<lambda>p. toLowerCase (project_name p) = toLowerCase (drop 8 token))
                (getAllProjects st) of
           Some p \<Rightarrow> Inr (query\<lparr> q_projectId := Some (project_id p) \<rparr>)
         | None \<Rightarrow> Inr query)
      else if startsWith token ''due:'' then
        (case parseDueDate rt (drop 4 token) of
           Inl e \<Rightarrow> Inl e
         | Inr (Some dueDate) \<Rightarrow> Inr (query\<lparr> q_dueBefore := Some dueDate \<rparr>)
         | Inr None \<Rightarrow> Inr query)
      else if startsWith token ''sort:'' then
        (case splitColon (drop 5 token) [] of
           [f, d] \<Rightarrow>
             (case (fieldOfString f, dirOfString d) of
                (Some field, Some dir) \<Rightarrow> Inr (query\<lparr> q_sort := Some (field, dir) \<rparr>)
              | _ \<Rightarrow> Inr query)
         | _ \<Rightarrow> Inr query)
      else if startsWith token ''+'' then Inr (addTagFilter st (drop 1 token) query)
      else if startsWith token ''-'' then Inr (appendText token query)
      else Inr (appendText token query))"

text \<open>The token loop: it stops at the first token that throws.\<close>

fun parseTokens ::
  "IndexStore \<Rightarrow> DateRuntime \<Rightarrow> string list \<Rightarrow> SearchQuery \<Rightarrow> Thrown + SearchQuery" where
  "parseTokens st rt [] query = Inr query"
| "parseTokens st rt (token # tokens) query =
     (case parseToken st rt token query of
        Inl e \<Rightarrow> Inl e
      | Inr query' \<Rightarrow> parseTokens st rt tokens query')"

definition parseQuery :: "IndexStore \<Rightarrow> DateRuntime \<Rightarrow> string \<Rightarrow> Thrown + SearchQuery" where
  "parseQuery st rt queryString = parseTokens st rt (tokenize queryString) emptyQuery"

text \<open>\<^verbatim>\<open>searchByString\<close>: parse, then search; the exception of the parse passes through.\<close>

definition searchByString ::
  "IndexStore \<Rightarrow> DateRuntime \<Rightarrow> Timestamp \<Rightarrow> string \<Rightarrow> Thrown + TaskListItem list" where
  "searchByString st rt now queryString =
     (case parseQuery st rt queryString of
        Inl e \<Rightarrow> Inl e
      | Inr query \<Rightarrow> Inr (searchTasks st now query))"

section \<open>Operation sequences and index consistency\<close>

datatype StoreOp = AddTask Timestamp Task | UpdateTask Timestamp Task | RemoveTask ID

fun applyOp :: "StoreOp \<Rightarrow> IndexStore \<Rightarrow> IndexStore" where
  "applyOp (AddTask now t) st = addTask now t st"
| "applyOp (UpdateTask now t) st = IndexStore_updateTask now t st"
| "applyOp (RemoveTask i) st = removeTask i st"

definition run :: "StoreOp list \<Rightarrow> IndexStore \<Rightarrow> IndexStore" where
  "run ops st = fold applyOp ops st"

text \<open>Every \<open>AddTask\<close> of the sequence adds an id that the store does not hold at that point.\<close>

fun freshAdds :: "IndexStore \<Rightarrow> StoreOp list \<Rightarrow> bool" where
  "freshAdds st [] = True"
| "freshAdds st (AddTask now t # ops) =
     (map_of (tasks st) (task_id t) = None \<and> freshAdds (addTask now t st) ops)"
| "freshAdds st (x # ops) = freshAdds (applyOp x st) ops"

text \<open>
  The index buckets of \<open>st\<close> are exactly those of the task map \<open>m\<close>: a task's id is in the
  bucket of its status, of its priority, of each of its tags and of its (non-empty)
  project id, and in no other bucket; every key of \<open>m\<close> is the id of its task.
\<close>

definition indexes_match :: "(ID \<rightharpoonup> Task) \<Rightarrow> IndexStore \<Rightarrow> bool" where
  "indexes_match m st =
     ((\<forall>i t. m i = Some t \<longrightarrow> task_id t = i) \<and>
      (\<forall>s. bucket (tasksByStatus st) s = {i. \<exists>t. m i = Some t \<and> status t = s}) \<and>
      (\<forall>p. bucket (tasksByPriority st) p = {i. \<exists>t. m i = Some t \<and> priority t = p}) \<and>
      (\<forall>g. bucket (tasksByTag st) g = {i. \<exists>t. m i = Some t \<and> g \<in> set (task_tags t)}) \<and>
      (\<forall>p. bucket (tasksByProject st) p =
            {i. \<exists>t. m i = Some t \<and> truthy (projectId t) \<and> projectId t = Some p}) \<and>
      set (overdueTasks st) \<subseteq> dom m)"

definition index_consistent :: "IndexStore \<Rightarrow> bool" where
  "index_consistent st = indexes_match (map_of (tasks st)) st"

text \<open>
  Calls of every kind on the store: the task operations, the project and tag operations of
  \<^verbatim>\<open>IndexStore\<close>, and \<^verbatim>\<open>TagService.getOrCreate\<close>.
\<close>

datatype StoreCall =
    TaskCall StoreOp
  | AddProject Project
  | UpdateProject Project
  | RemoveProject ID
  | AddTag Tag
  | UpdateTag Tag
  | RemoveTag ID
  | GetOrCreate Timestamp ID string "string option"

fun applyCall :: "StoreCall \<Rightarrow> IndexStore \<Rightarrow> IndexStore" where
  "applyCall (TaskCall x) st = applyOp x st"
| "applyCall (AddProject p) st = addProject p st"
| "applyCall (UpdateProject p) st = IndexStore_updateProject p st"
| "applyCall (RemoveProject i) st = removeProject i st"
| "applyCall (AddTag g) st = addTag g st"
| "applyCall (UpdateTag g) st = IndexStore_updateTag g st"
| "applyCall (RemoveTag i) st = removeTag i st"
| "applyCall (GetOrCreate now newId name col) st =
     snd (TagService_getOrCreate now newId name col st)"

definition runCalls :: "StoreCall list \<Rightarrow> IndexStore \<Rightarrow> IndexStore" where
  "runCalls calls st = fold applyCall calls st"

text \<open>
  Every stored task is filed under its key and, when it has a non-empty project id, in the
  bucket of that project.
\<close>

definition filed_by_project :: "(ID \<rightharpoonup> Task) \<Rightarrow> IndexStore \<Rightarrow> bool" where
  "filed_by_project m st =
     (\<forall>i t. m i = Some t \<longrightarrow>
        task_id t = i \<and>
        (truthy (projectId t) \<longrightarrow> i \<in> bucket (tasksByProject st) (the (projectId t))))"

text \<open>
  The name of tag \<open>g\<close> differs, up to letter case, from the name of every other stored tag;
  and a sequence of calls in which every tag handed to \<open>addTag\<close> or \<open>updateTag\<close> has
  such a name at that point.
\<close>

definition nameIsNew :: "IndexStore \<Rightarrow> Tag \<Rightarrow> bool" where
  "nameIsNew st g =
     list_all (\<lambda>(j, h). j = tag_id g \<or> toLowerCase (tag_name h) \<noteq> toLowerCase (tag_name g))
       (tags st)"

fun namesDistinct :: "IndexStore \<Rightarrow> StoreCall list \<Rightarrow> bool" where
  "namesDistinct st [] = True"
| "namesDistinct st (AddTag g # calls) = (nameIsNew st g \<and> namesDistinct (addTag g st) calls)"
| "namesDistinct st (UpdateTag g # calls) =
     (nameIsNew st g \<and> namesDistinct (IndexStore_updateTag g st) calls)"
| "namesDistinct st (c # calls) = namesDistinct (applyCall c st) calls"

section \<open>The query semantics in the words of the specification\<close>

text \<open>
  A list-valued category is given when \<open>nonEmpty\<close>, the project category when \<open>truthy\<close>.
  \<open>inBuckets\<close>: the id lies in the intersection, over the given categories, of the union of
  that category's matching buckets.  \<open>matchesCategories\<close>: the task's status is one of the
  given statuses, its priority one of the given priorities, it carries one of the given tags
  and its project is the given project, for each category that is given.
  \<open>passesResidual\<close>: the two scan filters, due-date cutoff and free text.
\<close>

definition inBuckets :: "IndexStore \<Rightarrow> SearchQuery \<Rightarrow> ID \<Rightarrow> bool" where
  "inBuckets st query i =
     ((nonEmpty (q_statuses query) \<longrightarrow>
         i \<in> (\<Union>s \<in> set (the (q_statuses query)). bucket (tasksByStatus st) s)) \<and>
      (nonEmpty (q_priorities query) \<longrightarrow>
         i \<in> (\<Union>p \<in> set (the (q_priorities query)). bucket (tasksByPriority st) p)) \<and>
      (nonEmpty (q_tags query) \<longrightarrow>
         i \<in> (\<Union>g \<in> set (the (q_tags query)). bucket (tasksByTag st) g)) \<and>
      (truthy (q_projectId query) \<longrightarrow>
         i \<in> bucket (tasksByProject st) (the (q_projectId query))))"

definition matchesCategories :: "SearchQuery \<Rightarrow> Task \<Rightarrow> bool" where
  "matchesCategories query t =
     ((nonEmpty (q_statuses query) \<longrightarrow> status t \<in> set (the (q_statuses query))) \<and>
      (nonEmpty (q_priorities query) \<longrightarrow> priority t \<in> set (the (q_priorities query))) \<and>
      (nonEmpty (q_tags query) \<longrightarrow> set (task_tags t) \<inter> set (the (q_tags query)) \<noteq> {}) \<and>
      (truthy (q_projectId query) \<longrightarrow> projectId t = q_projectId query))"

definition passesResidual :: "SearchQuery \<Rightarrow> Task \<Rightarrow> bool" where
  "passesResidual query t =
     ((case q_dueBefore query of
         None \<Rightarrow> True
       | Some cutoff \<Rightarrow> (case dueAt t of None \<Rightarrow> False | Some d \<Rightarrow> d \<le> cutoff)) \<and>
      (truthy (q_text query) \<longrightarrow>
         str_includes (toLowerCase (title t)) (toLowerCase (the (q_text query))) \<or>
         (truthy (task_notes t) \<and>
          str_includes (toLowerCase (the (task_notes t))) (toLowerCase (the (q_text query))))))"

section \<open>Example data\<close>

definition fixtureTask :: "ID \<Rightarrow> string \<Rightarrow> Status \<Rightarrow> int \<Rightarrow> Task" where
  "fixtureTask i ttl s p =
     createTask 1000 i \<lparr> ct_title = ttl, ct_notes = None, ct_status = Some s,
       ct_priority = Some p, ct_projectId = None, ct_tags = None, ct_dueAt = None \<rparr>"

definition exOps :: "StoreOp list" where
  "exOps = [AddTask 1000 (fixtureTask ''a'' ''write'' Todo 1),
            AddTask 1000 (fixtureTask ''b'' ''read'' Done 3),
            UpdateTask 2000 ((fixtureTask ''a'' ''write'' Done 1)\<lparr> task_tags := [''t1''] \<rparr>),
            RemoveTask ''b'']"

definition exStore :: IndexStore where
  "exStore = run exOps emptyStore"

definition exTaskA :: Task where
  "exTaskA = (fixtureTask ''a'' ''write'' Done 1)\<lparr> task_tags := [''t1''] \<rparr>"

definition exQuery :: SearchQuery where
  "exQuery = emptyQuery\<lparr> q_statuses := Some [Todo, Done], q_tags := Some [''t1''] \<rparr>"

definition exDueStore :: IndexStore where
  "exDueStore =
     run [AddTask 1000 (fixtureTask ''n'' ''no due date'' Todo 2),
          AddTask 1000 ((fixtureTask ''d'' ''past and done'' Done 2)\<lparr> dueAt := Some 500 \<rparr>),
          AddTask 1000 ((fixtureTask ''o'' ''past and open'' Todo 2)\<lparr> dueAt := Some 500 \<rparr>)]
       emptyStore"

definition exProject :: Project where
  "exProject = \<lparr> project_id = ''p1'', project_name = ''Work'', project_order = 0,
     parentId = None, project_createdAt = 1000, project_updatedAt = 1000 \<rparr>"

definition exProjTask :: Task where
  "exProjTask = (fixtureTask ''a'' ''write'' Todo 1)\<lparr> projectId := Some ''p1'' \<rparr>"

definition exUpdate :: UpdateTaskInput where
  "exUpdate = \<lparr> ut_id = ''a'', ut_title = None, ut_notes = None, ut_status = Some Done,
     ut_priority = None, ut_projectId = None, ut_tags = None, ut_dueAt = None \<rparr>"

definition exSortStore :: IndexStore where
  "exSortStore =
     run [AddTask 1000 (fixtureTask ''w'' ''gamma'' Todo 3),
          AddTask 1000 (fixtureTask ''x'' ''Alpha'' Todo 1),
          AddTask 1000 (fixtureTask ''y'' ''delta'' Todo 5),
          AddTask 1000 (fixtureTask ''z'' ''beta'' Todo 2)] emptyStore"

text \<open>
  The name index is in step with the tags: the tag map has one entry per key, every stored
  tag is filed under its id, and the name index maps its lower-cased name to it.
\<close>

definition tagIndex_ok :: "IndexStore \<Rightarrow> bool" where
  "tagIndex_ok st =
     (distinct (map fst (tags st)) \<and>
      (\<forall>i g. map_of (tags st) i = Some g \<longrightarrow>
         tag_id g = i \<and> map_of (tagByName st) (toLowerCase (tag_name g)) = Some g))"

definition exTagA :: Tag where
  "exTagA = createTag 1000 ''g1'' \<lparr> cg_name = ''urgent'', cg_color = Some ''red'' \<rparr>"

definition exTagB :: Tag where
  "exTagB = createTag 2000 ''g2'' \<lparr> cg_name = ''Urgent'', cg_color = None \<rparr>"

definition exTagStore :: IndexStore where
  "exTagStore =
     snd (TagService_create 1000 ''g1'' \<lparr> cg_name = ''urgent'', cg_color = Some ''red'' \<rparr>
            emptyStore)"

definition exTagStore2 :: IndexStore where
  "exTagStore2 =
     snd (TagService_create 2000 ''g2'' \<lparr> cg_name = ''Urgent'', cg_color = None \<rparr> exTagStore)"


text \<open>
  A token is recognised when it starts with one of the prefixes that \<^verbatim>\<open>parseQuery\<close> tests
  before the dash and free-text branches; \<open>freeText\<close> is the free-text filter made of a
  list of tokens, absent for the empty list.
\<close>

definition recognized :: "string \<Rightarrow> bool" where
  "recognized token =
     (startsWith token ''status:'' \<or> startsWith token ''priority:'' \<or> startsWith token ''tag:'' \<or>
      startsWith token ''project:'' \<or> startsWith token ''due:'' \<or> startsWith token ''sort:'' \<or>
      startsWith token ''+'')"

definition freeText :: "string list \<Rightarrow> string option" where
  "freeText ts = (if ts = [] then None else Some (join '' '' ts))"

definition exParseStore :: IndexStore where
  "exParseStore = addProject exProject exTagStore"

text \<open>
  An example runtime: the clock stands in 2024-01-01, the time zone is UTC, and the
  \<^verbatim>\<open>Date\<close> constructor accepts a \<^verbatim>\<open>YYYY-MM-DD\<close> string whose month is 1 to 12 and whose
  day is 1 to 31, counting days of the proleptic Gregorian calendar.
\<close>

definition daysFromCivil :: "int \<Rightarrow> int \<Rightarrow> int \<Rightarrow> int" where
  "daysFromCivil y m d =
     (let y' = (if m \<le> 2 then y - 1 else y);
          era = y' div 400;
          yoe = y' - era * 400;
          doy = (153 * ((m + 9) mod 12) + 2) div 5 + d - 1;
          doe = yoe * 365 + yoe div 4 - yoe div 100 + doy
      in era * 146097 + doe - 719468)"

definition exDateOfString :: "string \<Rightarrow> Timestamp option" where
  "exDateOfString s =
     (case (parseDigits 10 (take 4 s), parseDigits 10 (take 2 (drop 5 s)),
            parseDigits 10 (drop 8 s)) of
        (Some y, Some m, Some d) \<Rightarrow>
          if 1 \<le> m \<and> m \<le> 12 \<and> 1 \<le> d \<and> d \<le> 31
          then Some (daysFromCivil (int y) (int m) (int d) * 86400000)
          else None
      | _ \<Rightarrow> None)"

definition exRuntime :: DateRuntime where
  "exRuntime =
     \<lparr> today = 1704067200000, tomorrow = 1704153600000, endOfWeek = 1704672000000,
       endOfMonth = 1706745600000, dateOfString = exDateOfString,
       todayPlusDays = (\<lambda>days. if isValidTimestamp (1704067200000 + days * 86400000)
                                then Some (1704067200000 + days * 86400000) else None) \<rparr>"

definition exCalls :: "StoreCall list" where
  "exCalls =
     [AddProject exProject,
      TaskCall (AddTask 1000 (fixtureTask ''a'' ''write'' Todo 1)),
      TaskCall (AddTask 2000 exProjTask)]"

definition exTagCalls :: "StoreCall list" where
  "exTagCalls =
     [GetOrCreate 1000 ''g1'' ''urgent'' (Some ''red''),
      GetOrCreate 2000 ''g2'' ''Urgent'' None,
      AddTag (createTag 3000 ''g3'' \<lparr> cg_name = ''home'', cg_color = None \<rparr>),
      UpdateTag ((createTag 3000 ''g3'' \<lparr> cg_name = ''home'', cg_color = None \<rparr>)
                   \<lparr> tag_name := ''Work'', tag_updatedAt := 4000 \<rparr>),
      RemoveTag ''g9'']"

section \<open>Index maintenance\<close>

lemmas store_eval =
  run_def addTask_def IndexStore_updateTask_def removeTask_def updateTaskIndexes_def
  removeTaskFromIndexes_def bucket_add_def bucket_remove_def set_add_def set_delete_def
  emptyStore_def fixtureTask_def createTask_def truthy_def overdueAt_def bucket_def

lemma removeAll_Nil_subset: "removeAll i xs = [] \<Longrightarrow> set xs \<subseteq> {i}"
proof -
  assume "removeAll i xs = []"
  then have "set (removeAll i xs) = {}" by simp
  then show ?thesis by auto
qed

lemma bucket_bucket_add:
  "bucket (bucket_add k i m) k' = (if k' = k then insert i (bucket m k) else bucket m k')"
  by (auto simp: bucket_def bucket_add_def set_add_def AList.update_conv' split: option.splits)

lemma bucket_bucket_remove:
  "bucket (bucket_remove k i m) k' = (if k' = k then bucket m k - {i} else bucket m k')"
  by (auto simp: bucket_def bucket_remove_def set_delete_def AList.update_conv' AList.delete_conv'
      split: option.splits if_splits dest: removeAll_Nil_subset)

lemma bucket_fold_add:
  "bucket (fold (\<lambda>g. bucket_add g i) gs m) k =
     (if k \<in> set gs then insert i (bucket m k) else bucket m k)"
  by (induction gs arbitrary: m) (auto simp: bucket_bucket_add)

lemma bucket_fold_remove:
  "bucket (fold (\<lambda>g. bucket_remove g i) gs m) k =
     (if k \<in> set gs then bucket m k - {i} else bucket m k)"
  by (induction gs arbitrary: m) (auto simp: bucket_bucket_remove)

lemma indexes_match_tasks_update [simp]:
  "indexes_match m (st\<lparr>tasks := x\<rparr>) = indexes_match m st"
  by (simp add: indexes_match_def)

lemma indexes_match_add:
  assumes "indexes_match m st" "m (task_id t) = None"
  shows "indexes_match (m(task_id t \<mapsto> t)) (updateTaskIndexes now t st)"
  using assms unfolding indexes_match_def updateTaskIndexes_def
  apply (simp add: bucket_bucket_add bucket_fold_add set_add_def set_delete_def)
  apply (intro conjI allI impI)
  apply (auto simp: truthy_def split: option.splits)
  done

lemma indexes_match_remove:
  assumes "indexes_match m st" "m i = Some t"
  shows "indexes_match (m(i := None)) (removeTaskFromIndexes t st)"
proof -
  have id: "task_id t = i" using assms by (auto simp: indexes_match_def)
  show ?thesis
    using assms unfolding indexes_match_def removeTaskFromIndexes_def id
    apply (simp add: bucket_bucket_remove bucket_fold_remove set_delete_def)
    apply (intro conjI allI impI)
    apply (auto simp: truthy_def split: option.splits)
    done
qed

lemma tasks_updateTaskIndexes [simp]: "tasks (updateTaskIndexes now t st) = tasks st"
  by (simp add: updateTaskIndexes_def)

lemma tasks_removeTaskFromIndexes [simp]: "tasks (removeTaskFromIndexes t st) = tasks st"
  by (simp add: removeTaskFromIndexes_def)

lemma updateTaskIndexes_tasks_update:
  "updateTaskIndexes now t (st\<lparr>tasks := x\<rparr>) = (updateTaskIndexes now t st)\<lparr>tasks := x\<rparr>"
  by (simp add: updateTaskIndexes_def)

lemma index_consistent_emptyStore: "index_consistent emptyStore"
  by (simp add: index_consistent_def indexes_match_def emptyStore_def bucket_def)

lemma index_consistent_addTask:
  assumes "index_consistent st" "map_of (tasks st) (task_id t) = None"
  shows "index_consistent (addTask now t st)"
  using indexes_match_add [OF assms [unfolded index_consistent_def], of now]
  by (simp add: index_consistent_def addTask_def updateTaskIndexes_tasks_update AList.update_conv')

lemma index_consistent_removeTask:
  assumes "index_consistent st"
  shows "index_consistent (removeTask i st)"
proof (cases "map_of (tasks st) i")
  case None
  then show ?thesis using assms by (simp add: removeTask_def)
next
  case (Some t)
  from indexes_match_remove [OF assms [unfolded index_consistent_def] Some]
  show ?thesis using Some
    by (simp add: index_consistent_def removeTask_def AList.delete_conv')
qed

lemma index_consistent_updateTask:
  assumes "index_consistent st"
  shows "index_consistent (IndexStore_updateTask now t st)"
proof (cases "map_of (tasks st) (task_id t)")
  case None
  from indexes_match_add [OF assms [unfolded index_consistent_def] None, of now]
  show ?thesis using None
    by (simp add: index_consistent_def IndexStore_updateTask_def updateTaskIndexes_tasks_update
        AList.update_conv')
next
  case (Some old)
  let ?m = "(map_of (tasks st))(task_id t := None)"
  have 1: "indexes_match ?m (removeTaskFromIndexes old st)"
    by (rule indexes_match_remove [OF assms [unfolded index_consistent_def] Some])
  have 2: "?m (task_id t) = None" by simp
  have 3: "?m(task_id t \<mapsto> t) = (map_of (tasks st))(task_id t \<mapsto> t)" by (rule fun_upd_upd)
  from indexes_match_add [OF 1 2, of now]
  show ?thesis using Some unfolding 3
    by (simp add: index_consistent_def IndexStore_updateTask_def updateTaskIndexes_tasks_update
        AList.update_conv')
qed

lemma index_consistent_run:
  "index_consistent st \<Longrightarrow> freshAdds st ops \<Longrightarrow> index_consistent (run ops st)"
proof (induction ops arbitrary: st)
  case Nil
  then show ?case by (simp add: run_def)
next
  case (Cons x ops)
  show ?case
  proof (cases x)
    case (AddTask now t)
    with Cons.prems have "index_consistent (addTask now t st)" "freshAdds (addTask now t st) ops"
      by (simp_all add: index_consistent_addTask)
    from Cons.IH [OF this] show ?thesis using AddTask by (simp add: run_def)
  next
    case (UpdateTask now t)
    with Cons.prems have "index_consistent (IndexStore_updateTask now t st)"
      "freshAdds (IndexStore_updateTask now t st) ops"
      by (simp_all add: index_consistent_updateTask)
    from Cons.IH [OF this] show ?thesis using UpdateTask by (simp add: run_def)
  next
    case (RemoveTask i)
    with Cons.prems have "index_consistent (removeTask i st)" "freshAdds (removeTask i st) ops"
      by (simp_all add: index_consistent_removeTask)
    from Cons.IH [OF this] show ?thesis using RemoveTask by (simp add: run_def)
  qed
qed

lemma removed_id_absent: "map_of (tasks (removeTask i st)) i = None"
  by (cases "map_of (tasks st) i") (simp_all add: removeTask_def AList.delete_conv')

text \<open>
  C2 (as amended).  After any sequence of \<open>addTask\<close>, \<open>updateTask\<close> and \<open>removeTask\<close>
  from the empty store in which every \<open>addTask\<close> adds an id the store does not hold,
  each stored task's id is in the status bucket of its status and in no other status bucket,
  in the priority bucket of its priority and in no other, in the tag bucket of exactly its
  tags, and in the project bucket of exactly its non-empty project id; and after
  \<open>removeTask i\<close> the id \<open>i\<close> is in no bucket of the four indexes and not in the
  overdue set.
\<close>

theorem index_consistency_after_operations:
  assumes "freshAdds emptyStore ops"
  shows "(\<forall>i t. map_of (tasks (run ops emptyStore)) i = Some t \<longrightarrow>
           task_id t = i \<and>
           (\<forall>s. i \<in> bucket (tasksByStatus (run ops emptyStore)) s \<longleftrightarrow> s = status t) \<and>
           (\<forall>p. i \<in> bucket (tasksByPriority (run ops emptyStore)) p \<longleftrightarrow> p = priority t) \<and>
           (\<forall>g. i \<in> bucket (tasksByTag (run ops emptyStore)) g \<longleftrightarrow> g \<in> set (task_tags t)) \<and>
           (\<forall>p. i \<in> bucket (tasksByProject (run ops emptyStore)) p \<longleftrightarrow>
                 truthy (projectId t) \<and> projectId t = Some p)) \<and>
         (\<forall>i. (\<forall>s. i \<notin> bucket (tasksByStatus (removeTask i (run ops emptyStore))) s) \<and>
              (\<forall>p. i \<notin> bucket (tasksByPriority (removeTask i (run ops emptyStore))) p) \<and>
              (\<forall>g. i \<notin> bucket (tasksByTag (removeTask i (run ops emptyStore))) g) \<and>
              (\<forall>p. i \<notin> bucket (tasksByProject (removeTask i (run ops emptyStore))) p) \<and>
              i \<notin> set (overdueTasks (removeTask i (run ops emptyStore))))"
proof -
  let ?st = "run ops emptyStore"
  have c: "index_consistent ?st"
    by (rule index_consistent_run [OF index_consistent_emptyStore assms])
  have part1: "\<forall>i t. map_of (tasks ?st) i = Some t \<longrightarrow>
           task_id t = i \<and>
           (\<forall>s. i \<in> bucket (tasksByStatus ?st) s \<longleftrightarrow> s = status t) \<and>
           (\<forall>p. i \<in> bucket (tasksByPriority ?st) p \<longleftrightarrow> p = priority t) \<and>
           (\<forall>g. i \<in> bucket (tasksByTag ?st) g \<longleftrightarrow> g \<in> set (task_tags t)) \<and>
           (\<forall>p. i \<in> bucket (tasksByProject ?st) p \<longleftrightarrow>
                 truthy (projectId t) \<and> projectId t = Some p)"
    using c unfolding index_consistent_def indexes_match_def by auto
  have part2: "(\<forall>s. i \<notin> bucket (tasksByStatus (removeTask i ?st)) s) \<and>
              (\<forall>p. i \<notin> bucket (tasksByPriority (removeTask i ?st)) p) \<and>
              (\<forall>g. i \<notin> bucket (tasksByTag (removeTask i ?st)) g) \<and>
              (\<forall>p. i \<notin> bucket (tasksByProject (removeTask i ?st)) p) \<and>
              i \<notin> set (overdueTasks (removeTask i ?st))" for i
  proof -
    have c': "index_consistent (removeTask i ?st)"
      by (rule index_consistent_removeTask [OF c])
    have n: "map_of (tasks (removeTask i ?st)) i = None"
      by (rule removed_id_absent)
    show ?thesis
      using c' n unfolding index_consistent_def indexes_match_def by auto
  qed
  show ?thesis using part1 part2 by blast
qed

theorem index_consistency_after_operations_witness:
  "freshAdds emptyStore exOps \<and>
   ''a'' \<in> bucket (tasksByStatus (run exOps emptyStore)) Done \<and>
   ''a'' \<notin> bucket (tasksByStatus (run exOps emptyStore)) Todo \<and>
   ''a'' \<in> bucket (tasksByTag (run exOps emptyStore)) ''t1'' \<and>
   ''b'' \<notin> bucket (tasksByPriority (removeTask ''b'' (run exOps emptyStore))) 3"
proof -
  have h: "freshAdds emptyStore exOps"
    by (simp add: exOps_def store_eval)
  have a: "map_of (tasks (run exOps emptyStore)) ''a'' =
             Some ((fixtureTask ''a'' ''write'' Done 1)\<lparr> task_tags := [''t1''] \<rparr>)"
    by (simp add: exOps_def store_eval)
  have s: "status ((fixtureTask ''a'' ''write'' Done 1)\<lparr> task_tags := [''t1''] \<rparr>) = Done"
    and g: "task_tags ((fixtureTask ''a'' ''write'' Done 1)\<lparr> task_tags := [''t1''] \<rparr>) = [''t1'']"
    by (simp_all add: fixtureTask_def createTask_def)
  note th = index_consistency_after_operations [OF h]
  note p1 = th [THEN conjunct1, rule_format, OF a]
  note p2 = th [THEN conjunct2, rule_format, of "''b''"]
  have 1: "''a'' \<in> bucket (tasksByStatus (run exOps emptyStore)) Done" using p1 s by simp
  have 2: "''a'' \<notin> bucket (tasksByStatus (run exOps emptyStore)) Todo" using p1 s by simp
  have 3: "''a'' \<in> bucket (tasksByTag (run exOps emptyStore)) ''t1''" using p1 g by simp
  have 4: "''b'' \<notin> bucket (tasksByPriority (removeTask ''b'' (run exOps emptyStore))) 3"
    using p2 by blast
  show ?thesis using h 1 2 3 4 by blast
qed

text \<open>
  C2 as stated fails: \<open>addTask\<close> never removes the index entries of a task it overwrites.
  Adding a second task under the id of a stored one leaves the id in the old status bucket,
  also after \<open>removeTask\<close>.
\<close>

theorem index_consistency_readd_counterexample:
  "map_of (tasks (run [AddTask 1000 (fixtureTask ''a'' ''write'' Todo 1),
                       AddTask 2000 (fixtureTask ''a'' ''write'' Done 1)] emptyStore)) ''a''
     = Some (fixtureTask ''a'' ''write'' Done 1) \<and>
   ''a'' \<in> bucket (tasksByStatus (run [AddTask 1000 (fixtureTask ''a'' ''write'' Todo 1),
                       AddTask 2000 (fixtureTask ''a'' ''write'' Done 1)] emptyStore)) Todo \<and>
   ''a'' \<in> bucket (tasksByStatus (removeTask ''a''
            (run [AddTask 1000 (fixtureTask ''a'' ''write'' Todo 1),
                  AddTask 2000 (fixtureTask ''a'' ''write'' Done 1)] emptyStore))) Todo"
  by (simp add: store_eval)

section \<open>The query engine\<close>

lemmas search_eval =
  searchTasks_def searchIds_def byStatuses_def byPriorities_def byTags_def byProject_def
  byDueBefore_def byText_def unionBuckets_def hydrate_def dueBeforeFilter_def textFilter_def
  nonEmpty_def emptyQuery_def array_sort_def compareItems_def compareValues_def
  toLowerCase_def toLowerChar_def startsWith_def dueKey_def MAX_SAFE_INTEGER_def


lemma set_fold_set_add: "set (fold set_add ids acc) = set acc \<union> set ids"
  by (induction ids arbitrary: acc) (auto simp: set_add_def)

lemma set_fold_buckets:
  "set (fold (\<lambda>k acc. case map_of index k of None \<Rightarrow> acc | Some ids \<Rightarrow> fold set_add ids acc) ks acc0)
     = set acc0 \<union> (\<Union>k \<in> set ks. bucket index k)"
  by (induction ks arbitrary: acc0) (auto simp: set_fold_set_add bucket_def split: option.splits)

lemma set_unionBuckets: "set (unionBuckets index ks) = (\<Union>k \<in> set ks. bucket index k)"
  by (simp add: unionBuckets_def set_fold_buckets)

lemma set_byStatuses:
  "set (byStatuses st query) =
     (if nonEmpty (q_statuses query)
      then (\<Union>s \<in> set (the (q_statuses query)). bucket (tasksByStatus st) s)
      else fst ` set (tasks st))"
  by (simp add: byStatuses_def set_unionBuckets)

lemma set_byPriorities:
  "set (byPriorities st query ids) =
     {i \<in> set ids. nonEmpty (q_priorities query) \<longrightarrow>
        i \<in> (\<Union>p \<in> set (the (q_priorities query)). bucket (tasksByPriority st) p)}"
  by (auto simp: byPriorities_def set_unionBuckets)

lemma set_byTags:
  "set (byTags st query ids) =
     {i \<in> set ids. nonEmpty (q_tags query) \<longrightarrow>
        i \<in> (\<Union>g \<in> set (the (q_tags query)). bucket (tasksByTag st) g)}"
  by (auto simp: byTags_def set_unionBuckets)

lemma set_byProject:
  "set (byProject st query ids) =
     {i \<in> set ids. truthy (q_projectId query) \<longrightarrow>
        i \<in> bucket (tasksByProject st) (the (q_projectId query))}"
  by (auto simp: byProject_def bucket_def split: option.splits)

lemma set_byDueBefore:
  "set (byDueBefore st query ids) =
     {i \<in> set ids. case q_dueBefore query of None \<Rightarrow> True | Some d \<Rightarrow> dueBeforeFilter st d i}"
  by (auto simp: byDueBefore_def split: option.splits)

lemma set_byText:
  "set (byText st query ids) =
     {i \<in> set ids. truthy (q_text query) \<longrightarrow> textFilter st (toLowerCase (the (q_text query))) i}"
  by (auto simp: byText_def)

lemmas set_stages = set_byStatuses set_byPriorities set_byTags set_byProject set_byDueBefore set_byText

lemma nonEmpty_None [simp]: "\<not> nonEmpty None"
  by (simp add: nonEmpty_def)

lemma passesResidual_filters:
  "map_of (tasks st) i = Some t \<Longrightarrow>
   passesResidual query t \<longleftrightarrow>
     (case q_dueBefore query of None \<Rightarrow> True | Some d \<Rightarrow> dueBeforeFilter st d i) \<and>
     (truthy (q_text query) \<longrightarrow> textFilter st (toLowerCase (the (q_text query))) i)"
  by (auto simp: passesResidual_def dueBeforeFilter_def textFilter_def split: option.splits)

lemma searchIds_else:
  "\<not> (\<not> truthy (q_text query) \<and> q_statuses query = None \<and> q_priorities query = None \<and>
         q_tags query = None \<and> \<not> truthy (q_projectId query) \<and> q_dueBefore query = None) \<Longrightarrow>
   searchIds st query = byText st query (byDueBefore st query (byProject st query
             (byTags st query (byPriorities st query (byStatuses st query)))))"
  unfolding searchIds_def by (rule if_not_P)

lemma searchIds_then:
  "\<not> truthy (q_text query) \<and> q_statuses query = None \<and> q_priorities query = None \<and>
         q_tags query = None \<and> \<not> truthy (q_projectId query) \<and> q_dueBefore query = None \<Longrightarrow>
   searchIds st query = map fst (tasks st)"
  unfolding searchIds_def by (rule if_P)

lemma searchIds_sound:
  assumes "i \<in> set (searchIds st query)"
  shows "inBuckets st query i"
proof (cases "\<not> truthy (q_text query) \<and> q_statuses query = None \<and> q_priorities query = None \<and>
         q_tags query = None \<and> \<not> truthy (q_projectId query) \<and> q_dueBefore query = None")
  case True
  then show ?thesis by (simp add: inBuckets_def)
next
  case False
  then have "i \<in> set (byText st query (byDueBefore st query (byProject st query
             (byTags st query (byPriorities st query (byStatuses st query))))))"
    using assms by (simp only: searchIds_else [OF False])
  then show ?thesis
    by (simp add: set_stages inBuckets_def split: if_splits)
qed

lemma searchIds_keys:
  assumes "i \<in> set (searchIds st query)" "\<not> nonEmpty (q_statuses query)"
  shows "i \<in> fst ` set (tasks st)"
proof (cases "\<not> truthy (q_text query) \<and> q_statuses query = None \<and> q_priorities query = None \<and>
         q_tags query = None \<and> \<not> truthy (q_projectId query) \<and> q_dueBefore query = None")
  case True
  then show ?thesis using assms by (simp add: searchIds_then)
next
  case False
  then have "i \<in> set (byText st query (byDueBefore st query (byProject st query
             (byTags st query (byPriorities st query (byStatuses st query))))))"
    using assms by (simp only: searchIds_else [OF False])
  then show ?thesis using assms(2)
    by (simp add: set_stages)
qed

lemma searchIds_residual:
  assumes "i \<in> set (searchIds st query)" "map_of (tasks st) i = Some t"
  shows "passesResidual query t"
proof (cases "\<not> truthy (q_text query) \<and> q_statuses query = None \<and> q_priorities query = None \<and>
         q_tags query = None \<and> \<not> truthy (q_projectId query) \<and> q_dueBefore query = None")
  case True
  then show ?thesis by (simp add: passesResidual_def)
next
  case False
  then have "i \<in> set (byText st query (byDueBefore st query (byProject st query
             (byTags st query (byPriorities st query (byStatuses st query))))))"
    using assms by (simp only: searchIds_else [OF False])
  then show ?thesis unfolding passesResidual_filters [OF assms(2)]
    by (simp add: set_stages)
qed

lemma searchIds_complete:
  assumes "map_of (tasks st) i = Some t" "inBuckets st query i" "passesResidual query t"
  shows "i \<in> set (searchIds st query)"
proof -
  have k: "i \<in> fst ` set (tasks st)"
    using assms(1) by (metis map_of_eq_None_iff option.distinct(1))
  show ?thesis
  proof (cases "\<not> truthy (q_text query) \<and> q_statuses query = None \<and> q_priorities query = None \<and>
         q_tags query = None \<and> \<not> truthy (q_projectId query) \<and> q_dueBefore query = None")
    case True
    then show ?thesis using k by (simp add: searchIds_then)
  next
    case False
    have "i \<in> set (byText st query (byDueBefore st query (byProject st query
             (byTags st query (byPriorities st query (byStatuses st query))))))"
      using assms(2) assms(3) k unfolding passesResidual_filters [OF assms(1)]
      by (simp add: set_stages inBuckets_def)
    then show ?thesis by (simp only: searchIds_else [OF False])
  qed
qed

lemma mset_insertBy: "mset (insertBy c x ys) = add_mset x (mset ys)"
  by (induction ys) auto

lemma mset_array_sort: "mset (array_sort c xs) = mset xs"
  by (induction xs) (auto simp: array_sort_def mset_insertBy)

lemma set_array_sort: "set (array_sort c xs) = set xs"
  by (metis mset_array_sort set_mset_mset)

lemma array_sort_Nil [simp]: "array_sort c [] = []"
  by (simp add: array_sort_def)

lemma set_map_filter_eq: "set (List.map_filter f xs) = {y. \<exists>x \<in> set xs. f x = Some y}"
  by (induction xs) (auto split: option.splits)

lemma index_consistent_id:
  "index_consistent st \<Longrightarrow> map_of (tasks st) i = Some t \<Longrightarrow> task_id t = i"
  by (simp add: index_consistent_def indexes_match_def)

lemma set_searchTasks:
  "set (searchTasks st now query) = {x. \<exists>i \<in> set (searchIds st query). hydrate st now i = Some x}"
  by (auto simp: searchTasks_def Let_def set_array_sort set_map_filter_eq split: option.splits)

lemma searchTasks_no_ids: "searchIds st query = [] \<Longrightarrow> searchTasks st now query = []"
  by (simp add: searchTasks_def map_filter_simps split: option.splits)

lemma hydrate_task:
  "hydrate st now i = Some x \<Longrightarrow> map_of (tasks st) i = Some (task x)"
  by (auto simp: hydrate_def split: option.splits)

lemma hydrate_stored:
  "map_of (tasks st) i = Some t \<Longrightarrow> \<exists>x. hydrate st now i = Some x \<and> task x = t"
  by (simp add: hydrate_def)

lemma hydrate_isOverdue:
  "hydrate st now i = Some x \<Longrightarrow>
   isOverdue x = (case dueAt (task x) of None \<Rightarrow> False | Some d \<Rightarrow> d < now \<and> status (task x) \<noteq> Done)"
  by (auto simp: hydrate_def split: option.splits)

lemma hydrate_project:
  "hydrate st now i = Some x \<Longrightarrow>
   project x = (if truthy (projectId (task x)) then map_of (projects st) (the (projectId (task x))) else None)"
  by (auto simp: hydrate_def split: option.splits)

lemma inBuckets_matchesCategories:
  assumes "index_consistent st" "map_of (tasks st) i = Some t"
  shows "inBuckets st query i \<longleftrightarrow> matchesCategories query t"
proof -
  from assms have
    s: "\<And>s. i \<in> bucket (tasksByStatus st) s \<longleftrightarrow> status t = s" and
    p: "\<And>p. i \<in> bucket (tasksByPriority st) p \<longleftrightarrow> priority t = p" and
    g: "\<And>g. i \<in> bucket (tasksByTag st) g \<longleftrightarrow> g \<in> set (task_tags t)" and
    j: "\<And>p. i \<in> bucket (tasksByProject st) p \<longleftrightarrow> truthy (projectId t) \<and> projectId t = Some p"
    by (auto simp: index_consistent_def indexes_match_def)
  show ?thesis
    unfolding inBuckets_def matchesCategories_def
    by (auto simp: s p g j truthy_def split: option.splits)
qed

lemma returned_iff:
  assumes "index_consistent st" "map_of (tasks st) i = Some t"
  shows "(\<exists>x \<in> set (searchTasks st now query). task x = t) \<longleftrightarrow>
           inBuckets st query i \<and> passesResidual query t"
proof
  assume "\<exists>x \<in> set (searchTasks st now query). task x = t"
  then obtain x j where j: "j \<in> set (searchIds st query)" "hydrate st now j = Some x" "task x = t"
    by (auto simp: set_searchTasks)
  then have m: "map_of (tasks st) j = Some t" using hydrate_task by blast
  have "task_id t = j" "task_id t = i"
    using index_consistent_id [OF assms(1) m] index_consistent_id [OF assms] by simp_all
  then have "j = i" by simp
  with j m show "inBuckets st query i \<and> passesResidual query t"
    using searchIds_sound searchIds_residual by blast
next
  assume a: "inBuckets st query i \<and> passesResidual query t"
  then have "i \<in> set (searchIds st query)"
    using searchIds_complete [OF assms(2)] by blast
  moreover obtain x where "hydrate st now i = Some x" "task x = t"
    using hydrate_stored [OF assms(2)] by blast
  ultimately show "\<exists>x \<in> set (searchTasks st now query). task x = t"
    by (auto simp: set_searchTasks)
qed


lemma searchIds_empty_if_no_bucket:
  assumes "\<And>i. \<not> inBuckets st query i"
  shows "searchIds st query = []"
proof -
  have "i \<notin> set (searchIds st query)" for i
    using assms searchIds_sound [of i st query] by blast
  then show ?thesis by (cases "searchIds st query") auto
qed

lemma searchIds_eq_stages:
  "searchIds st query =
     byText st query (byDueBefore st query (byProject st query
       (byTags st query (byPriorities st query (byStatuses st query)))))"
proof (cases "\<not> truthy (q_text query) \<and> q_statuses query = None \<and> q_priorities query = None \<and>
         q_tags query = None \<and> \<not> truthy (q_projectId query) \<and> q_dueBefore query = None")
  case True
  then have "byStatuses st query = map fst (tasks st)"
    "\<And>ids. byPriorities st query ids = ids" "\<And>ids. byTags st query ids = ids"
    "\<And>ids. byProject st query ids = ids" "\<And>ids. byDueBefore st query ids = ids"
    "\<And>ids. byText st query ids = ids"
    by (simp_all add: byStatuses_def byPriorities_def byTags_def byProject_def byDueBefore_def
        byText_def)
  then show ?thesis using True by (simp add: searchIds_then)
next
  case False
  then show ?thesis by (rule searchIds_else)
qed

lemma searchIds_empty_list_as_absent:
  "searchIds st (query\<lparr> q_statuses := Some [] \<rparr>) = searchIds st (query\<lparr> q_statuses := None \<rparr>)"
  "searchIds st (query\<lparr> q_priorities := Some [] \<rparr>) = searchIds st (query\<lparr> q_priorities := None \<rparr>)"
  "searchIds st (query\<lparr> q_tags := Some [] \<rparr>) = searchIds st (query\<lparr> q_tags := None \<rparr>)"
  "searchIds st (query\<lparr> q_projectId := Some [] \<rparr>) = searchIds st (query\<lparr> q_projectId := None \<rparr>)"
  by (simp_all add: searchIds_eq_stages byStatuses_def byPriorities_def byTags_def byProject_def
      byDueBefore_def byText_def nonEmpty_def truthy_def
      cong: if_cong option.case_cong split del: if_split)

lemma searchTasks_cong_ids:
  "searchIds st q1 = searchIds st q2 \<Longrightarrow> q_sort q1 = q_sort q2 \<Longrightarrow>
   searchTasks st now q1 = searchTasks st now q2"
  by (simp add: searchTasks_def)


lemma scan_filters_overdueTasks:
  "dueBeforeFilter (st\<lparr> overdueTasks := ov \<rparr>) = dueBeforeFilter st"
  "textFilter (st\<lparr> overdueTasks := ov \<rparr>) = textFilter st"
  by (simp_all add: fun_eq_iff dueBeforeFilter_def textFilter_def)

lemma overdueTasks_irrelevant:
  "byStatuses (st\<lparr> overdueTasks := ov \<rparr>) query = byStatuses st query"
  "byPriorities (st\<lparr> overdueTasks := ov \<rparr>) query ids = byPriorities st query ids"
  "byTags (st\<lparr> overdueTasks := ov \<rparr>) query ids = byTags st query ids"
  "byProject (st\<lparr> overdueTasks := ov \<rparr>) query ids = byProject st query ids"
  "byDueBefore (st\<lparr> overdueTasks := ov \<rparr>) query ids = byDueBefore st query ids"
  "byText (st\<lparr> overdueTasks := ov \<rparr>) query ids = byText st query ids"
  "hydrate (st\<lparr> overdueTasks := ov \<rparr>) now = hydrate st now"
  by (simp_all add: byStatuses_def byPriorities_def byTags_def byProject_def byDueBefore_def
      byText_def hydrate_def scan_filters_overdueTasks fun_eq_iff split: option.splits)

lemma searchTasks_overdueTasks_irrelevant:
  "searchTasks (st\<lparr> overdueTasks := ov \<rparr>) now query = searchTasks st now query"
  by (simp add: searchTasks_def searchIds_def overdueTasks_irrelevant)


lemma removeProject_fields:
  "tasks (removeProject pid st) = tasks st"
  "tags (removeProject pid st) = tags st"
  "tagByName (removeProject pid st) = tagByName st"
  "tasksByProject (removeProject pid st) = tasksByProject st"
  "tasksByTag (removeProject pid st) = tasksByTag st"
  "tasksByStatus (removeProject pid st) = tasksByStatus st"
  "tasksByPriority (removeProject pid st) = tasksByPriority st"
  "overdueTasks (removeProject pid st) = overdueTasks st"
  "map_of (projects (removeProject pid st)) pid = None"
  by (simp_all add: removeProject_def AList.delete_conv')


lemma index_consistent_exStore: "index_consistent exStore"
  unfolding exStore_def
  by (rule index_consistent_run [OF index_consistent_emptyStore]) (simp add: exOps_def store_eval)

lemma exStore_a: "map_of (tasks exStore) ''a'' = Some exTaskA"
  by (simp add: exStore_def exOps_def exTaskA_def store_eval)


text \<open>
  C1 (as amended).  In every index-consistent store and for every filter specification,
  \<open>searchTasks\<close> returns stored tasks only, and a stored task is returned iff its id lies in
  the intersection, over the given categories, of the union of that category's matching
  buckets and the task passes the due-date and free-text scans when those are given.  Lying
  in that intersection is the same as: the task's status is among the given statuses, its
  priority among the given priorities, it carries one of the given tags, and its project is
  the given project, for each category that is given.  A list category is given when it is
  present and non-empty, the project when it is a non-empty string.
\<close>

theorem searchTasks_category_composition:
  assumes "index_consistent st"
  shows "(\<forall>x \<in> set (searchTasks st now query).
            map_of (tasks st) (task_id (task x)) = Some (task x)) \<and>
         (\<forall>i t. map_of (tasks st) i = Some t \<longrightarrow>
            ((\<exists>x \<in> set (searchTasks st now query). task x = t) \<longleftrightarrow>
               inBuckets st query i \<and> passesResidual query t) \<and>
            (inBuckets st query i \<longleftrightarrow> matchesCategories query t))"
proof -
  have 1: "map_of (tasks st) (task_id (task x)) = Some (task x)"
    if "x \<in> set (searchTasks st now query)" for x
  proof -
    from that obtain j where j: "hydrate st now j = Some x" by (auto simp: set_searchTasks)
    then have m: "map_of (tasks st) j = Some (task x)" by (rule hydrate_task)
    then have "task_id (task x) = j"
      using assms by (rule index_consistent_id [rotated])
    with m show ?thesis by simp
  qed
  show ?thesis
    using 1 returned_iff [OF assms] inBuckets_matchesCategories [OF assms] by blast
qed


theorem searchTasks_category_composition_witness:
  "index_consistent exStore \<and> matchesCategories exQuery exTaskA \<and>
   (\<exists>x \<in> set (searchTasks exStore 3000 exQuery). task x = exTaskA)"
proof -
  have mc: "matchesCategories exQuery exTaskA"
    by (simp add: matchesCategories_def exQuery_def exTaskA_def emptyQuery_def nonEmpty_def
        truthy_def fixtureTask_def createTask_def)
  have pr: "passesResidual exQuery exTaskA"
    by (simp add: passesResidual_def exQuery_def emptyQuery_def truthy_def)
  note th = searchTasks_category_composition [OF index_consistent_exStore, of 3000 exQuery,
      THEN conjunct2, rule_format, OF exStore_a]
  from th mc pr index_consistent_exStore show ?thesis by blast
qed


text \<open>
  C1 as stated fails twice.  With statuses \<open>[Todo]\<close> and the text \<open>zzz\<close> the stored task is
  \<open>Todo\<close>, hence in the intersection of the given categories, and is not returned.  With
  statuses \<open>[Todo]\<close> and priorities \<open>[]\<close> the task is returned although its priority is not
  in the given priorities.
\<close>

theorem category_composition_residual_counterexample:
  "map_of (tasks (addTask 1000 (fixtureTask ''a'' ''write'' Todo 1) emptyStore)) ''a''
      = Some (fixtureTask ''a'' ''write'' Todo 1) \<and>
   status (fixtureTask ''a'' ''write'' Todo 1) \<in> set [Todo] \<and>
   searchTasks (addTask 1000 (fixtureTask ''a'' ''write'' Todo 1) emptyStore) 3000
      (emptyQuery\<lparr> q_statuses := Some [Todo], q_text := Some ''zzz'' \<rparr>) = [] \<and>
   priority (fixtureTask ''a'' ''write'' Todo 1) \<notin> set [] \<and>
   map task (searchTasks (addTask 1000 (fixtureTask ''a'' ''write'' Todo 1) emptyStore) 3000
      (emptyQuery\<lparr> q_statuses := Some [Todo], q_priorities := Some [] \<rparr>))
      = [fixtureTask ''a'' ''write'' Todo 1]"
  by (simp add: store_eval search_eval)


text \<open>
  C4.  Every record returned by \<open>searchTasks\<close> carries the flag \<open>isOverdue\<close> computed from
  \<open>now\<close>: false without a due date, false for a past due date with status \<open>Done\<close>, true
  for a past due date with any other status; and the result does not depend on the
  maintained overdue set.
\<close>

theorem isOverdue_recomputed:
  "(\<forall>x \<in> set (searchTasks st now query).
      (dueAt (task x) = None \<longrightarrow> \<not> isOverdue x) \<and>
      (\<forall>d. dueAt (task x) = Some d \<and> d < now \<and> status (task x) = Done \<longrightarrow> \<not> isOverdue x) \<and>
      (\<forall>d. dueAt (task x) = Some d \<and> d < now \<and> status (task x) \<noteq> Done \<longrightarrow> isOverdue x) \<and>
      isOverdue x =
        (case dueAt (task x) of None \<Rightarrow> False | Some d \<Rightarrow> d < now \<and> status (task x) \<noteq> Done)) \<and>
   searchTasks (st\<lparr> overdueTasks := ov \<rparr>) now query = searchTasks st now query"
proof -
  have a: "isOverdue x =
        (case dueAt (task x) of None \<Rightarrow> False | Some d \<Rightarrow> d < now \<and> status (task x) \<noteq> Done)"
    if "x \<in> set (searchTasks st now query)" for x
    using that hydrate_isOverdue by (auto simp: set_searchTasks)
  have b: "searchTasks (st\<lparr> overdueTasks := ov \<rparr>) now query = searchTasks st now query"
    by (rule searchTasks_overdueTasks_irrelevant)
  show ?thesis using a b by (auto split: option.splits)
qed

theorem isOverdue_recomputed_witness:
  "\<exists>x \<in> set (searchTasks exDueStore 3000 emptyQuery).
     dueAt (task x) = Some 500 \<and> status (task x) = Todo \<and> isOverdue x"
proof -
  have "\<exists>x \<in> set (searchTasks exDueStore 3000 emptyQuery).
     dueAt (task x) = Some 500 \<and> status (task x) = Todo"
    by (simp add: exDueStore_def store_eval search_eval)
  then obtain x where x: "x \<in> set (searchTasks exDueStore 3000 emptyQuery)"
    "dueAt (task x) = Some 500" "status (task x) = Todo" by blast
  note th = isOverdue_recomputed [of exDueStore 3000 emptyQuery, THEN conjunct1, rule_format, OF x(1)]
  from th x have "isOverdue x" by simp
  with x show ?thesis by blast
qed


lemma searchTasks_mono:
  assumes "\<And>i. inBuckets st q i \<Longrightarrow> inBuckets st q' i"
    and "\<And>t. passesResidual q t \<Longrightarrow> passesResidual q' t"
  shows "set (searchTasks st now q) \<subseteq> set (searchTasks st now q')"
proof
  fix x assume "x \<in> set (searchTasks st now q)"
  then obtain i where i: "i \<in> set (searchIds st q)" "hydrate st now i = Some x"
    by (auto simp: set_searchTasks)
  have m: "map_of (tasks st) i = Some (task x)" by (rule hydrate_task [OF i(2)])
  have "inBuckets st q' i" by (rule assms(1) [OF searchIds_sound [OF i(1)]])
  moreover have "passesResidual q' (task x)" by (rule assms(2) [OF searchIds_residual [OF i(1) m]])
  ultimately have "i \<in> set (searchIds st q')" by (rule searchIds_complete [OF m])
  with i(2) show "x \<in> set (searchTasks st now q')" by (auto simp: set_searchTasks)
qed

lemma dropping_a_category:
  "set (searchTasks st now query) \<subseteq> set (searchTasks st now (query\<lparr> q_statuses := None \<rparr>))"
  "set (searchTasks st now query) \<subseteq> set (searchTasks st now (query\<lparr> q_priorities := None \<rparr>))"
  "set (searchTasks st now query) \<subseteq> set (searchTasks st now (query\<lparr> q_tags := None \<rparr>))"
  "set (searchTasks st now query) \<subseteq> set (searchTasks st now (query\<lparr> q_projectId := None \<rparr>))"
  by (rule searchTasks_mono; simp add: inBuckets_def passesResidual_def truthy_def)+

text \<open>
  C7 (as amended).  When a given category (a non-empty list, or a non-empty project id) has
  an empty union of matching buckets, \<open>searchTasks\<close> returns the empty sequence.  A category
  given as the empty list, or a project id given as the empty string, is treated exactly as
  an absent one.  An absent category constrains nothing: leaving a category out of a query
  loses no result, and with no category and no scan given every stored task is returned,
  whatever its fields.
\<close>

theorem empty_category_collapses:
  "((nonEmpty (q_statuses query) \<and>
       (\<Union>s \<in> set (the (q_statuses query)). bucket (tasksByStatus st) s) = {}) \<or>
    (nonEmpty (q_priorities query) \<and>
       (\<Union>p \<in> set (the (q_priorities query)). bucket (tasksByPriority st) p) = {}) \<or>
    (nonEmpty (q_tags query) \<and>
       (\<Union>g \<in> set (the (q_tags query)). bucket (tasksByTag st) g) = {}) \<or>
    (truthy (q_projectId query) \<and> bucket (tasksByProject st) (the (q_projectId query)) = {})
      \<longrightarrow> searchTasks st now query = []) \<and>
   searchTasks st now (query\<lparr> q_statuses := Some [] \<rparr>) =
     searchTasks st now (query\<lparr> q_statuses := None \<rparr>) \<and>
   searchTasks st now (query\<lparr> q_priorities := Some [] \<rparr>) =
     searchTasks st now (query\<lparr> q_priorities := None \<rparr>) \<and>
   searchTasks st now (query\<lparr> q_tags := Some [] \<rparr>) =
     searchTasks st now (query\<lparr> q_tags := None \<rparr>) \<and>
   searchTasks st now (query\<lparr> q_projectId := Some [] \<rparr>) =
     searchTasks st now (query\<lparr> q_projectId := None \<rparr>) \<and>
   set (searchTasks st now query) \<subseteq> set (searchTasks st now (query\<lparr> q_statuses := None \<rparr>)) \<and>
   set (searchTasks st now query) \<subseteq> set (searchTasks st now (query\<lparr> q_priorities := None \<rparr>)) \<and>
   set (searchTasks st now query) \<subseteq> set (searchTasks st now (query\<lparr> q_tags := None \<rparr>)) \<and>
   set (searchTasks st now query) \<subseteq> set (searchTasks st now (query\<lparr> q_projectId := None \<rparr>)) \<and>
   (\<forall>i t. map_of (tasks st) i = Some t \<longrightarrow>
      (\<exists>x \<in> set (searchTasks st now (emptyQuery\<lparr> q_sort := q_sort query \<rparr>)). task x = t))"
proof -
  have collapse: "searchTasks st now query = []"
    if "(nonEmpty (q_statuses query) \<and>
       (\<Union>s \<in> set (the (q_statuses query)). bucket (tasksByStatus st) s) = {}) \<or>
    (nonEmpty (q_priorities query) \<and>
       (\<Union>p \<in> set (the (q_priorities query)). bucket (tasksByPriority st) p) = {}) \<or>
    (nonEmpty (q_tags query) \<and>
       (\<Union>g \<in> set (the (q_tags query)). bucket (tasksByTag st) g) = {}) \<or>
    (truthy (q_projectId query) \<and> bucket (tasksByProject st) (the (q_projectId query)) = {})"
  proof -
    have "\<not> inBuckets st query i" for i
      using that unfolding inBuckets_def by auto
    then show ?thesis
      by (intro searchTasks_no_ids searchIds_empty_if_no_bucket)
  qed
  have all: "\<exists>x \<in> set (searchTasks st now (emptyQuery\<lparr> q_sort := q_sort query \<rparr>)). task x = t"
    if m: "map_of (tasks st) i = Some t" for i t
  proof -
    have "inBuckets st (emptyQuery\<lparr> q_sort := q_sort query \<rparr>) i"
      "passesResidual (emptyQuery\<lparr> q_sort := q_sort query \<rparr>) t"
      by (simp_all add: inBuckets_def passesResidual_def emptyQuery_def truthy_def)
    then have "i \<in> set (searchIds st (emptyQuery\<lparr> q_sort := q_sort query \<rparr>))"
      by (rule searchIds_complete [OF m])
    moreover obtain x where "hydrate st now i = Some x" "task x = t"
      using hydrate_stored [OF m] by blast
    ultimately show ?thesis by (auto simp: set_searchTasks)
  qed
  have e1: "searchTasks st now (query\<lparr> q_statuses := Some [] \<rparr>) =
     searchTasks st now (query\<lparr> q_statuses := None \<rparr>)"
    by (rule searchTasks_cong_ids) (simp_all add: searchIds_empty_list_as_absent)
  have e2: "searchTasks st now (query\<lparr> q_priorities := Some [] \<rparr>) =
     searchTasks st now (query\<lparr> q_priorities := None \<rparr>)"
    by (rule searchTasks_cong_ids) (simp_all add: searchIds_empty_list_as_absent)
  have e3: "searchTasks st now (query\<lparr> q_tags := Some [] \<rparr>) =
     searchTasks st now (query\<lparr> q_tags := None \<rparr>)"
    by (rule searchTasks_cong_ids) (simp_all add: searchIds_empty_list_as_absent)
  have e4: "searchTasks st now (query\<lparr> q_projectId := Some [] \<rparr>) =
     searchTasks st now (query\<lparr> q_projectId := None \<rparr>)"
    by (rule searchTasks_cong_ids) (simp_all add: searchIds_empty_list_as_absent)
  show ?thesis
    apply (intro conjI impI allI)
    subgoal by (rule collapse)
    subgoal by (rule e1)
    subgoal by (rule e2)
    subgoal by (rule e3)
    subgoal by (rule e4)
    subgoal by (rule dropping_a_category(1))
    subgoal by (rule dropping_a_category(2))
    subgoal by (rule dropping_a_category(3))
    subgoal by (rule dropping_a_category(4))
    subgoal by (rule all)
    done
qed


theorem empty_category_collapses_witness:
  "nonEmpty (q_statuses (emptyQuery\<lparr> q_statuses := Some [Archived] \<rparr>)) \<and>
   (\<Union>s \<in> set (the (q_statuses (emptyQuery\<lparr> q_statuses := Some [Archived] \<rparr>))).
      bucket (tasksByStatus exStore) s) = {} \<and>
   tasks exStore \<noteq> [] \<and>
   searchTasks exStore 3000 (emptyQuery\<lparr> q_statuses := Some [Archived] \<rparr>) = []"
proof -
  have h: "nonEmpty (q_statuses (emptyQuery\<lparr> q_statuses := Some [Archived] \<rparr>)) \<and>
   (\<Union>s \<in> set (the (q_statuses (emptyQuery\<lparr> q_statuses := Some [Archived] \<rparr>))).
      bucket (tasksByStatus exStore) s) = {}"
    by (simp add: exStore_def exOps_def store_eval nonEmpty_def)
  have t: "tasks exStore \<noteq> []"
    by (simp add: exStore_def exOps_def store_eval)
  note th = empty_category_collapses [of "emptyQuery\<lparr> q_statuses := Some [Archived] \<rparr>" exStore 3000,
      THEN conjunct1, rule_format]
  from th h t show ?thesis by blast
qed


text \<open>
  C7 as stated fails for a category given as the empty set: the statuses \<open>[]\<close> do not
  collapse the result, the stored task is returned.
\<close>

theorem empty_category_counterexample:
  "map task (searchTasks (addTask 1000 (fixtureTask ''a'' ''write'' Todo 1) emptyStore) 3000
      (emptyQuery\<lparr> q_statuses := Some [] \<rparr>)) = [fixtureTask ''a'' ''write'' Todo 1]"
  by (simp add: store_eval search_eval)


lemma filed_by_project_tasks_update [simp]:
  "filed_by_project m (st\<lparr>tasks := x\<rparr>) = filed_by_project m st"
  by (simp add: filed_by_project_def)

lemma filed_by_projectD:
  assumes "filed_by_project m st" "m i = Some t"
  shows "task_id t = i" "truthy (projectId t) \<Longrightarrow> i \<in> bucket (tasksByProject st) (the (projectId t))"
  using assms by (simp_all add: filed_by_project_def)

lemma tasksByProject_updateTaskIndexes:
  "bucket (tasksByProject (updateTaskIndexes now t st)) p =
     (if truthy (projectId t) \<and> p = the (projectId t)
      then insert (task_id t) (bucket (tasksByProject st) p) else bucket (tasksByProject st) p)"
  by (simp add: updateTaskIndexes_def bucket_bucket_add)

lemma tasksByProject_removeTaskFromIndexes:
  "bucket (tasksByProject (removeTaskFromIndexes t st)) p =
     (if truthy (projectId t) \<and> p = the (projectId t)
      then bucket (tasksByProject st) p - {task_id t} else bucket (tasksByProject st) p)"
  by (simp add: removeTaskFromIndexes_def bucket_bucket_remove)

lemma filed_by_project_add:
  assumes "filed_by_project m st"
  shows "filed_by_project (m(task_id t \<mapsto> t)) (updateTaskIndexes now t st)"
  unfolding filed_by_project_def
proof (intro allI impI)
  fix i u assume a: "(m(task_id t \<mapsto> t)) i = Some u"
  show "task_id u = i \<and>
        (truthy (projectId u) \<longrightarrow>
           i \<in> bucket (tasksByProject (updateTaskIndexes now t st)) (the (projectId u)))"
  proof (cases "i = task_id t")
    case True
    then have "u = t" using a by simp
    with True show ?thesis by (simp add: tasksByProject_updateTaskIndexes)
  next
    case False
    then have "m i = Some u" using a by simp
    from filed_by_projectD [OF assms this] show ?thesis
      by (auto simp: tasksByProject_updateTaskIndexes)
  qed
qed

lemma filed_by_project_remove:
  assumes "filed_by_project m st" "m i = Some old"
  shows "filed_by_project (m(i := None)) (removeTaskFromIndexes old st)"
  unfolding filed_by_project_def
proof (intro allI impI)
  have id: "task_id old = i" by (rule filed_by_projectD(1) [OF assms])
  fix j u assume a: "(m(i := None)) j = Some u"
  then have j: "j \<noteq> i" and m: "m j = Some u" by (auto split: if_splits)
  from filed_by_projectD [OF assms(1) m] j id
  show "task_id u = j \<and>
        (truthy (projectId u) \<longrightarrow>
           j \<in> bucket (tasksByProject (removeTaskFromIndexes old st)) (the (projectId u)))"
    by (auto simp: tasksByProject_removeTaskFromIndexes)
qed

lemma filed_emptyStore: "filed_by_project (map_of (tasks emptyStore)) emptyStore"
  by (simp add: filed_by_project_def emptyStore_def)

lemma filed_addTask:
  assumes "filed_by_project (map_of (tasks st)) st"
  shows "filed_by_project (map_of (tasks (addTask now t st))) (addTask now t st)"
  using filed_by_project_add [OF assms, of t now]
  by (simp add: addTask_def updateTaskIndexes_tasks_update AList.update_conv')

lemma filed_removeTask:
  assumes "filed_by_project (map_of (tasks st)) st"
  shows "filed_by_project (map_of (tasks (removeTask i st))) (removeTask i st)"
proof (cases "map_of (tasks st) i")
  case None
  then show ?thesis using assms by (simp add: removeTask_def)
next
  case (Some t)
  from filed_by_project_remove [OF assms Some] show ?thesis using Some
    by (simp add: removeTask_def AList.delete_conv')
qed

lemma filed_updateTask:
  assumes "filed_by_project (map_of (tasks st)) st"
  shows "filed_by_project (map_of (tasks (IndexStore_updateTask now t st)))
           (IndexStore_updateTask now t st)"
proof (cases "map_of (tasks st) (task_id t)")
  case None
  from filed_by_project_add [OF assms, of t now] show ?thesis using None
    by (simp add: IndexStore_updateTask_def updateTaskIndexes_tasks_update AList.update_conv')
next
  case (Some old)
  let ?m = "(map_of (tasks st))(task_id t := None)"
  have 1: "filed_by_project ?m (removeTaskFromIndexes old st)"
    by (rule filed_by_project_remove [OF assms Some])
  have 3: "?m(task_id t \<mapsto> t) = (map_of (tasks st))(task_id t \<mapsto> t)" by (rule fun_upd_upd)
  from filed_by_project_add [OF 1, of t now] show ?thesis using Some unfolding 3
    by (simp add: IndexStore_updateTask_def updateTaskIndexes_tasks_update AList.update_conv')
qed

lemma filed_other_calls:
  "filed_by_project (map_of (tasks (addProject p st))) (addProject p st) =
     filed_by_project (map_of (tasks st)) st"
  "filed_by_project (map_of (tasks (IndexStore_updateProject p st))) (IndexStore_updateProject p st) =
     filed_by_project (map_of (tasks st)) st"
  "filed_by_project (map_of (tasks (removeProject i st))) (removeProject i st) =
     filed_by_project (map_of (tasks st)) st"
  "filed_by_project (map_of (tasks (addTag g st))) (addTag g st) =
     filed_by_project (map_of (tasks st)) st"
  "filed_by_project (map_of (tasks (IndexStore_updateTag g st))) (IndexStore_updateTag g st) =
     filed_by_project (map_of (tasks st)) st"
  "filed_by_project (map_of (tasks (removeTag i st))) (removeTag i st) =
     filed_by_project (map_of (tasks st)) st"
  "filed_by_project (map_of (tasks (snd (TagService_getOrCreate now newId name col st))))
       (snd (TagService_getOrCreate now newId name col st)) =
     filed_by_project (map_of (tasks st)) st"
  by (simp_all add: filed_by_project_def addProject_def IndexStore_updateProject_def
      removeProject_def addTag_def IndexStore_updateTag_def removeTag_def Let_def
      TagService_getOrCreate_def TagService_create_def split: option.splits)

lemma filed_applyCall:
  assumes "filed_by_project (map_of (tasks st)) st"
  shows "filed_by_project (map_of (tasks (applyCall c st))) (applyCall c st)"
proof (cases c)
  case (TaskCall x)
  then show ?thesis using assms
    by (cases x) (simp_all add: filed_addTask filed_updateTask filed_removeTask)
qed (simp_all add: filed_other_calls assms)

lemma filed_runCalls:
  "filed_by_project (map_of (tasks st)) st \<Longrightarrow>
   filed_by_project (map_of (tasks (runCalls calls st))) (runCalls calls st)"
proof (induction calls arbitrary: st)
  case Nil
  then show ?case by (simp add: runCalls_def)
next
  case (Cons c calls)
  from Cons.IH [OF filed_applyCall [OF Cons.prems]] show ?case by (simp add: runCalls_def)
qed


text \<open>
  C9.  \<open>removeProject\<close> changes the projects collection only: the tasks, the tags and every
  index of any store are as before.  In every store reached from the empty store by any
  sequence of calls, a task whose \<open>projectId\<close> is the removed id is still returned by a
  search for that project id after the removal, and its record has no project.
\<close>

theorem removeProject_keeps_tasks_searchable:
  "tasks (removeProject pid st) = tasks st \<and>
   tags (removeProject pid st) = tags st \<and>
   tagByName (removeProject pid st) = tagByName st \<and>
   tasksByProject (removeProject pid st) = tasksByProject st \<and>
   tasksByTag (removeProject pid st) = tasksByTag st \<and>
   tasksByStatus (removeProject pid st) = tasksByStatus st \<and>
   tasksByPriority (removeProject pid st) = tasksByPriority st \<and>
   overdueTasks (removeProject pid st) = overdueTasks st \<and>
   (\<forall>i t. map_of (tasks (runCalls calls emptyStore)) i = Some t \<and> projectId t = Some pid \<longrightarrow>
      (\<exists>x \<in> set (searchTasks (removeProject pid (runCalls calls emptyStore)) now
                     (emptyQuery\<lparr> q_projectId := Some pid \<rparr>)).
         task x = t \<and> project x = None))"
proof -
  have search: "\<exists>x \<in> set (searchTasks (removeProject pid (runCalls calls emptyStore)) now
                     (emptyQuery\<lparr> q_projectId := Some pid \<rparr>)).
         task x = t \<and> project x = None"
    if a: "map_of (tasks (runCalls calls emptyStore)) i = Some t \<and> projectId t = Some pid" for i t
  proof -
    let ?r = "runCalls calls emptyStore"
    let ?st = "removeProject pid ?r"
    let ?q = "emptyQuery\<lparr> q_projectId := Some pid \<rparr>"
    have f: "filed_by_project (map_of (tasks ?r)) ?r"
      by (rule filed_runCalls [OF filed_emptyStore])
    have m0: "map_of (tasks ?r) i = Some t" and p: "projectId t = Some pid" using a by simp_all
    have m: "map_of (tasks ?st) i = Some t" using m0 by (simp add: removeProject_fields)
    have "truthy (Some pid) \<longrightarrow> i \<in> bucket (tasksByProject ?r) pid"
      using filed_by_projectD(2) [OF f m0] p by simp
    then have b: "inBuckets ?st ?q i"
      by (simp add: inBuckets_def emptyQuery_def removeProject_fields)
    have r: "passesResidual ?q t"
      by (simp add: passesResidual_def emptyQuery_def truthy_def)
    have ids: "i \<in> set (searchIds ?st ?q)"
      by (rule searchIds_complete [OF m b r])
    obtain x where x: "hydrate ?st now i = Some x" "task x = t"
      using hydrate_stored [OF m] by blast
    have "project x = None"
      using hydrate_project [OF x(1)] x(2) p by (simp add: removeProject_fields)
    with ids x show ?thesis by (auto simp: set_searchTasks)
  qed
  have frame: "tasks (removeProject pid st) = tasks st \<and>
   tags (removeProject pid st) = tags st \<and>
   tagByName (removeProject pid st) = tagByName st \<and>
   tasksByProject (removeProject pid st) = tasksByProject st \<and>
   tasksByTag (removeProject pid st) = tasksByTag st \<and>
   tasksByStatus (removeProject pid st) = tasksByStatus st \<and>
   tasksByPriority (removeProject pid st) = tasksByPriority st \<and>
   overdueTasks (removeProject pid st) = overdueTasks st"
    by (simp add: removeProject_fields)
  have all: "\<forall>i t. map_of (tasks (runCalls calls emptyStore)) i = Some t \<and> projectId t = Some pid \<longrightarrow>
      (\<exists>x \<in> set (searchTasks (removeProject pid (runCalls calls emptyStore)) now
                     (emptyQuery\<lparr> q_projectId := Some pid \<rparr>)).
         task x = t \<and> project x = None)"
    using search by blast
  from frame all show ?thesis by blast
qed

lemma exCalls_tasks:
  "map_of (tasks (runCalls exCalls emptyStore)) ''a'' = Some exProjTask"
  "map_of (projects (runCalls exCalls emptyStore)) ''p1'' = Some exProject"
  by (simp_all add: exCalls_def runCalls_def exProjTask_def exProject_def addProject_def store_eval)

theorem removeProject_keeps_tasks_searchable_witness:
  "map_of (tasks (runCalls exCalls emptyStore)) ''a'' = Some exProjTask \<and>
   projectId exProjTask = Some ''p1'' \<and>
   map_of (projects (runCalls exCalls emptyStore)) ''p1'' = Some exProject \<and>
   tasksByProject (removeProject ''p1'' (runCalls exCalls emptyStore)) =
     tasksByProject (runCalls exCalls emptyStore) \<and>
   (\<exists>x \<in> set (searchTasks (removeProject ''p1'' (runCalls exCalls emptyStore)) 3000
                 (emptyQuery\<lparr> q_projectId := Some ''p1'' \<rparr>)).
      task x = exProjTask \<and> project x = None)"
proof -
  have p: "projectId exProjTask = Some ''p1''" by (simp add: exProjTask_def)
  note th = removeProject_keeps_tasks_searchable [of "''p1''" "runCalls exCalls emptyStore" exCalls 3000]
  from th exCalls_tasks p show ?thesis by blast
qed

section \<open>Sorting\<close>

lemma set_insertBy: "set (insertBy c x ys) = insert x (set ys)"
  by (induction ys) auto

lemma sorted_insertBy:
  assumes total: "\<And>a b. c a b \<le> 0 \<or> c b a \<le> 0"
    and trans: "\<And>a b d. c a b \<le> 0 \<Longrightarrow> c b d \<le> 0 \<Longrightarrow> c a d \<le> 0"
  shows "sorted_wrt (\<lambda>a b. c a b \<le> 0) ys \<Longrightarrow> sorted_wrt (\<lambda>a b. c a b \<le> 0) (insertBy c x ys)"
proof (induction ys)
  case Nil
  then show ?case by simp
next
  case (Cons y ys)
  show ?case
  proof (cases "c x y \<le> 0")
    case True
    then have "\<forall>z \<in> set ys. c x z \<le> 0" using Cons.prems trans by auto
    with True Cons.prems show ?thesis by simp
  next
    case False
    then have "c y x \<le> 0" using total [of x y] by simp
    with False Cons show ?thesis by (auto simp: set_insertBy)
  qed
qed

lemma sorted_array_sort:
  assumes "\<And>a b. c a b \<le> 0 \<or> c b a \<le> 0"
    and "\<And>a b d. c a b \<le> 0 \<Longrightarrow> c b d \<le> 0 \<Longrightarrow> c a d \<le> 0"
  shows "sorted_wrt (\<lambda>a b. c a b \<le> 0) (array_sort c xs)"
proof (induction xs)
  case Nil
  then show ?case by (simp add: array_sort_def)
next
  case (Cons x xs)
  then show ?case
    using sorted_insertBy [of c, OF assms] by (simp add: array_sort_def)
qed

lemma filter_insertBy:
  assumes "\<And>y. P x \<Longrightarrow> P y \<Longrightarrow> c x y \<le> 0"
  shows "filter P (insertBy c x ys) = (if P x then x # filter P ys else filter P ys)"
  using assms by (induction ys) auto

lemma filter_array_sort:
  assumes "\<And>x y. P x \<Longrightarrow> P y \<Longrightarrow> c x y \<le> 0"
  shows "filter P (array_sort c xs) = filter P xs"
proof (induction xs)
  case Nil
  then show ?case by (simp add: array_sort_def)
next
  case (Cons x xs)
  have "filter P (insertBy c x (array_sort c xs)) =
          (if P x then x # filter P (array_sort c xs) else filter P (array_sort c xs))"
    by (rule filter_insertBy) (rule assms)
  with Cons show ?case by (simp add: array_sort_def)
qed

lemma compareValues_le: "compareValues dir a b \<le> 0 \<longleftrightarrow> (if dir = Asc then a \<le> b else b \<le> a)"
  by (auto simp: compareValues_def)

lemma compareValues_eq: "compareValues dir a b = 0 \<longleftrightarrow> a = b"
  by (auto simp: compareValues_def)

lemma compareValues_less: "compareValues Asc a b < 0 \<longleftrightarrow> a < b"
  by (auto simp: compareValues_def)

lemma compareValues_flip: "compareValues Desc a b = - compareValues Asc a b"
  by (auto simp: compareValues_def)

lemma compareItems_total: "compareItems f d a b \<le> 0 \<or> compareItems f d b a \<le> 0"
  by (cases f; cases d) (auto simp: compareItems_def compareValues_le)

lemma compareItems_trans:
  "compareItems f d a b \<le> 0 \<Longrightarrow> compareItems f d b e \<le> 0 \<Longrightarrow> compareItems f d a e \<le> 0"
  by (cases f; cases d) (auto simp: compareItems_def compareValues_le)

lemma compareItems_ties:
  "compareItems f d x a = 0 \<Longrightarrow> compareItems f d x b = 0 \<Longrightarrow> compareItems f d a b \<le> 0"
  by (cases f) (auto simp: compareItems_def compareValues_eq compareValues_le)

lemma compareItems_flip: "compareItems f Desc a b = - compareItems f Asc a b"
  by (cases f) (simp_all add: compareItems_def compareValues_flip)

lemma searchIds_sort_irrelevant: "searchIds st (query\<lparr> q_sort := x \<rparr>) = searchIds st query"
  by (simp add: searchIds_eq_stages byStatuses_def byPriorities_def byTags_def byProject_def
      byDueBefore_def byText_def
      cong: if_cong option.case_cong split del: if_split)

lemma sorted_form_of_searchTasks:
  assumes "q_sort query = Some (field, dir)"
  shows "searchTasks st now query =
           array_sort (compareItems field dir) (searchTasks st now (query\<lparr> q_sort := None \<rparr>))"
  using assms by (simp add: searchTasks_def searchIds_sort_irrelevant)

lemma sort_example:
  "map (priority \<circ> task)
      (searchTasks exSortStore 3000 (emptyQuery\<lparr> q_sort := Some (Priority, Asc) \<rparr>)) = [1, 2, 3, 5]"
  "map (priority \<circ> task) (searchTasks exSortStore 3000 emptyQuery) = [3, 1, 5, 2]"
  by (simp_all add: exSortStore_def store_eval search_eval)


lemma dueKey_dated_before_undated:
  "dueAt ta = Some d \<Longrightarrow> isValidTimestamp d \<Longrightarrow> dueAt tb = None \<Longrightarrow> dueKey ta < dueKey tb"
  by (simp add: dueKey_def isValidTimestamp_def MAX_SAFE_INTEGER_def)

text \<open>
  C5.  With a sort specification \<open>(field, dir)\<close> the result of \<open>searchTasks\<close> is a
  permutation of the result without it, ordered by the comparator of the field, and stable:
  the records that tie with any given record keep their relative order.  In ascending
  direction the comparator orders titles by their lower-cased text, priorities numerically,
  creation and update times as instants, and due dates by \<open>dueKey\<close>, under which a task
  without a due date lies after every task with a valid one; two tasks without a due date
  tie.  The key does not depend on the direction; descending negates the comparator, so
  that there the tasks without a due date come first.  The four tasks with priorities
  \<open>[3, 1, 5, 2]\<close> come out as \<open>[1, 2, 3, 5]\<close> when sorted by priority ascending.
\<close>

theorem searchTasks_sort:
  assumes "q_sort query = Some (field, dir)"
  shows "mset (searchTasks st now query) = mset (searchTasks st now (query\<lparr> q_sort := None \<rparr>)) \<and>
    sorted_wrt (\<lambda>a b. compareItems field dir a b \<le> 0) (searchTasks st now query) \<and>
    (\<forall>x. filter (\<lambda>y. compareItems field dir x y = 0) (searchTasks st now query) =
         filter (\<lambda>y. compareItems field dir x y = 0)
           (searchTasks st now (query\<lparr> q_sort := None \<rparr>))) \<and>
    (compareItems Title Asc a b < 0 \<longleftrightarrow>
       toLowerCase (title (task a)) < toLowerCase (title (task b))) \<and>
    (compareItems Priority Asc a b < 0 \<longleftrightarrow> priority (task a) < priority (task b)) \<and>
    (compareItems CreatedAt Asc a b < 0 \<longleftrightarrow> createdAt (task a) < createdAt (task b)) \<and>
    (compareItems UpdatedAt Asc a b < 0 \<longleftrightarrow> updatedAt (task a) < updatedAt (task b)) \<and>
    (compareItems DueAt Asc a b < 0 \<longleftrightarrow> dueKey (task a) < dueKey (task b)) \<and>
    (\<forall>d. dueAt (task a) = Some d \<and> isValidTimestamp d \<and> dueAt (task b) = None \<longrightarrow>
         dueKey (task a) = d \<and> dueKey (task a) < dueKey (task b) \<and>
         compareItems DueAt Asc a b < 0 \<and> compareItems DueAt Desc b a < 0) \<and>
    (dueAt (task a) = None \<and> dueAt (task b) = None \<longrightarrow> compareItems DueAt dir a b = 0) \<and>
    compareItems field Desc a b = - compareItems field Asc a b \<and>
    compareItems field dir a b = - compareItems field dir b a \<and>
    map (priority \<circ> task) (searchTasks exSortStore 3000 emptyQuery) = [3, 1, 5, 2] \<and>
    map (priority \<circ> task)
      (searchTasks exSortStore 3000 (emptyQuery\<lparr> q_sort := Some (Priority, Asc) \<rparr>)) = [1, 2, 3, 5]"
proof -
  let ?c = "compareItems field dir"
  let ?rs = "searchTasks st now (query\<lparr> q_sort := None \<rparr>)"
  have form: "searchTasks st now query = array_sort ?c ?rs"
    by (rule sorted_form_of_searchTasks [OF assms])
  have perm: "mset (searchTasks st now query) = mset ?rs"
    by (simp add: form mset_array_sort)
  have sorted: "sorted_wrt (\<lambda>a b. ?c a b \<le> 0) (searchTasks st now query)"
    unfolding form by (rule sorted_array_sort) (rule compareItems_total, rule compareItems_trans)
  have stable: "filter (\<lambda>y. ?c x y = 0) (searchTasks st now query) = filter (\<lambda>y. ?c x y = 0) ?rs"
    for x
    unfolding form by (rule filter_array_sort) (rule compareItems_ties)
  have keys: "(compareItems Title Asc a b < 0 \<longleftrightarrow>
       toLowerCase (title (task a)) < toLowerCase (title (task b)))"
    "(compareItems Priority Asc a b < 0 \<longleftrightarrow> priority (task a) < priority (task b))"
    "(compareItems CreatedAt Asc a b < 0 \<longleftrightarrow> createdAt (task a) < createdAt (task b))"
    "(compareItems UpdatedAt Asc a b < 0 \<longleftrightarrow> updatedAt (task a) < updatedAt (task b))"
    "(compareItems DueAt Asc a b < 0 \<longleftrightarrow> dueKey (task a) < dueKey (task b))"
    by (simp_all add: compareItems_def compareValues_less)
  have due: "dueKey (task a) = d \<and> dueKey (task a) < dueKey (task b) \<and>
         compareItems DueAt Asc a b < 0 \<and> compareItems DueAt Desc b a < 0"
    if "dueAt (task a) = Some d \<and> isValidTimestamp d \<and> dueAt (task b) = None" for d
  proof -
    have "dueKey (task a) < dueKey (task b)"
      using that dueKey_dated_before_undated by blast
    moreover have "dueKey (task a) = d" using that by (simp add: dueKey_def)
    ultimately show ?thesis by (simp add: compareItems_def compareValues_def)
  qed
  have undated: "compareItems DueAt dir a b = 0" if "dueAt (task a) = None \<and> dueAt (task b) = None"
    using that by (simp add: compareItems_def compareValues_def dueKey_def)
  have flip: "compareItems field Desc a b = - compareItems field Asc a b"
    by (rule compareItems_flip)
  have anti: "compareItems field dir a b = - compareItems field dir b a"
    by (cases field) (auto simp: compareItems_def compareValues_def)
  note ex = sort_example
  show ?thesis
    apply (intro conjI allI impI)
    subgoal by (rule perm)
    subgoal by (rule sorted)
    subgoal by (rule stable)
    subgoal by (rule keys(1))
    subgoal by (rule keys(2))
    subgoal by (rule keys(3))
    subgoal by (rule keys(4))
    subgoal by (rule keys(5))
    subgoal for d using due [of d] by blast
    subgoal for d using due [of d] by blast
    subgoal for d using due [of d] by blast
    subgoal for d using due [of d] by blast
    subgoal by (rule undated)
    subgoal by (rule flip)
    subgoal by (rule anti)
    subgoal by (rule ex(2))
    subgoal by (rule ex(1))
    done
qed

theorem searchTasks_sort_witness:
  "q_sort (emptyQuery\<lparr> q_sort := Some (Title, Desc) \<rparr>) = Some (Title, Desc) \<and>
   mset (searchTasks exSortStore 3000 (emptyQuery\<lparr> q_sort := Some (Title, Desc) \<rparr>)) =
     mset (searchTasks exSortStore 3000 emptyQuery) \<and>
   sorted_wrt (\<lambda>a b. compareItems Title Desc a b \<le> 0)
     (searchTasks exSortStore 3000 (emptyQuery\<lparr> q_sort := Some (Title, Desc) \<rparr>)) \<and>
   map (title \<circ> task) (searchTasks exSortStore 3000 (emptyQuery\<lparr> q_sort := Some (Title, Desc) \<rparr>))
     = [''gamma'', ''delta'', ''beta'', ''Alpha'']"
proof -
  have h: "q_sort (emptyQuery\<lparr> q_sort := Some (Title, Desc) \<rparr>) = Some (Title, Desc)" by simp
  have e: "(emptyQuery\<lparr> q_sort := Some (Title, Desc) \<rparr>)\<lparr> q_sort := None \<rparr> = emptyQuery"
    by (simp add: emptyQuery_def)
  have t: "map (title \<circ> task)
     (searchTasks exSortStore 3000 (emptyQuery\<lparr> q_sort := Some (Title, Desc) \<rparr>))
     = [''gamma'', ''delta'', ''beta'', ''Alpha'']"
    by code_simp
  note th = searchTasks_sort [OF h, of exSortStore 3000]
  from th h t show ?thesis unfolding e by blast
qed

section \<open>Task factory and task service\<close>

lemma updateTask_status:
  "status (updateTask now t input) = (case ut_status input of Some s \<Rightarrow> s | None \<Rightarrow> status t)"
  by (simp add: updateTask_def Let_def split: option.splits)

lemma updateTask_completedAt:
  "completedAt (updateTask now t input) =
     (case ut_status input of
        Some s \<Rightarrow> if s = Done then Some now else None
      | None \<Rightarrow> completedAt t)"
  by (simp add: updateTask_def Let_def split: option.splits)

text \<open>
  C3.  \<open>createTask\<close> sets \<open>completedAt\<close> (to the current instant) exactly when the input
  status is \<open>Done\<close>, so its result has \<open>completedAt\<close> iff its status is \<open>Done\<close>.
  \<open>updateTask\<close> preserves that equivalence: a status \<open>Done\<close> in the input sets
  \<open>completedAt\<close> to the current instant, any other status in the input clears it, and an
  input without a status leaves both status and \<open>completedAt\<close> unchanged.
\<close>

theorem completedAt_iff_done:
  "(completedAt (createTask now newId cinput) =
      (if ct_status cinput = Some Done then Some now else None)) \<and>
   (completedAt (createTask now newId cinput) \<noteq> None \<longleftrightarrow>
      status (createTask now newId cinput) = Done) \<and>
   ((completedAt t \<noteq> None \<longleftrightarrow> status t = Done) \<longrightarrow>
      (completedAt (updateTask now t input) \<noteq> None \<longleftrightarrow> status (updateTask now t input) = Done)) \<and>
   (ut_status input = Some Done \<longrightarrow>
      status (updateTask now t input) = Done \<and> completedAt (updateTask now t input) = Some now) \<and>
   (\<forall>s. ut_status input = Some s \<and> s \<noteq> Done \<longrightarrow>
      status (updateTask now t input) = s \<and> completedAt (updateTask now t input) = None) \<and>
   (ut_status input = None \<longrightarrow>
      status (updateTask now t input) = status t \<and>
      completedAt (updateTask now t input) = completedAt t)"
  by (auto simp: updateTask_status updateTask_completedAt createTask_def split: option.splits)

theorem completedAt_iff_done_witness:
  "completedAt (fixtureTask ''a'' ''write'' Todo 1) = None \<and>
   status (fixtureTask ''a'' ''write'' Todo 1) = Todo \<and>
   ut_status exUpdate = Some Done \<and>
   status (updateTask 2000 (fixtureTask ''a'' ''write'' Todo 1) exUpdate) = Done \<and>
   completedAt (updateTask 2000 (fixtureTask ''a'' ''write'' Todo 1) exUpdate) = Some 2000"
proof -
  have h: "ut_status exUpdate = Some Done" by (simp add: exUpdate_def)
  have i: "completedAt (fixtureTask ''a'' ''write'' Todo 1) = None"
    "status (fixtureTask ''a'' ''write'' Todo 1) = Todo"
    by (simp_all add: fixtureTask_def createTask_def)
  note th = completedAt_iff_done [of 2000 "''a''" _ "fixtureTask ''a'' ''write'' Todo 1" exUpdate]
  from th h i show ?thesis by blast
qed


text \<open>
  C6.  For an id that is not in the store, \<open>TaskService.update\<close> (whatever the rest of the
  input) and \<open>TaskService.remove\<close> return the failure \<open>Task with ID ... not found\<close> and the
  store they leave is the store they were given, all indexes included.
\<close>

theorem not_found_leaves_store_unchanged:
  assumes "getTask st i = None"
  shows "(ut_id input = i \<longrightarrow>
            TaskService_update now input st =
              (Inl (Error (''Task with ID '' @ i @ '' not found'')), st)) \<and>
         TaskService_remove i st = (Inl (Error (''Task with ID '' @ i @ '' not found'')), st)"
  using assms by (simp add: TaskService_update_def TaskService_remove_def)

theorem not_found_leaves_store_unchanged_witness:
  "getTask exStore ''zz'' = None \<and>
   TaskService_update 3000 (exUpdate\<lparr> ut_id := ''zz'' \<rparr>) exStore =
     (Inl (Error ''Task with ID zz not found''), exStore) \<and>
   TaskService_remove ''zz'' exStore = (Inl (Error ''Task with ID zz not found''), exStore)"
proof -
  have h: "getTask exStore ''zz'' = None"
    by (simp add: getTask_def exStore_def exOps_def store_eval)
  have u: "ut_id (exUpdate\<lparr> ut_id := ''zz'' \<rparr>) = ''zz''" by simp
  note th = not_found_leaves_store_unchanged [OF h, of "exUpdate\<lparr> ut_id := ''zz'' \<rparr>" 3000]
  from th h u show ?thesis by simp
qed

section \<open>Tags by name\<close>

lemma tagIndex_ok_emptyStore: "tagIndex_ok emptyStore"
  by (simp add: tagIndex_ok_def emptyStore_def)

lemma tagIndex_okD:
  assumes "tagIndex_ok st" "map_of (tags st) i = Some g"
  shows "tag_id g = i" "map_of (tagByName st) (toLowerCase (tag_name g)) = Some g"
  using assms by (simp_all add: tagIndex_ok_def)

lemma tagIndex_okI:
  assumes "distinct (map fst (tags st))"
    and "\<And>i g. map_of (tags st) i = Some g \<Longrightarrow>
           tag_id g = i \<and> map_of (tagByName st) (toLowerCase (tag_name g)) = Some g"
  shows "tagIndex_ok st"
  using assms by (simp add: tagIndex_ok_def)

lemma nameIsNew_stored:
  assumes "nameIsNew st g" "map_of (tags st) j = Some h" "j \<noteq> tag_id g"
  shows "toLowerCase (tag_name h) \<noteq> toLowerCase (tag_name g)"
proof -
  have "(j, h) \<in> set (tags st)" using assms(2) by (rule map_of_SomeD)
  then show ?thesis using assms(1) assms(3) by (auto simp: nameIsNew_def list_all_iff)
qed

lemma tagIndex_ok_names:
  assumes "tagIndex_ok st" "map_of (tags st) i = Some g" "map_of (tags st) j = Some h" "i \<noteq> j"
  shows "toLowerCase (tag_name h) \<noteq> toLowerCase (tag_name g)"
proof
  assume e: "toLowerCase (tag_name h) = toLowerCase (tag_name g)"
  note g = tagIndex_okD [OF assms(1,2)] and h = tagIndex_okD [OF assms(1,3)]
  from g(2) h(2) e have "h = g" by simp
  with g(1) h(1) assms(4) show False by simp
qed

lemma tagIndex_ok_addTag:
  assumes "tagIndex_ok st" "nameIsNew st g"
  shows "tagIndex_ok (addTag g st)"
proof (rule tagIndex_okI)
  show "distinct (map fst (tags (addTag g st)))"
    using assms(1) by (simp add: addTag_def tagIndex_ok_def AList.distinct_update)
next
  fix i h assume "map_of (tags (addTag g st)) i = Some h"
  then have c: "(i = tag_id g \<and> h = g) \<or> (i \<noteq> tag_id g \<and> map_of (tags st) i = Some h)"
    by (auto simp: addTag_def AList.update_conv' split: if_splits)
  show "tag_id h = i \<and> map_of (tagByName (addTag g st)) (toLowerCase (tag_name h)) = Some h"
  proof (cases "i = tag_id g")
    case True
    then show ?thesis using c by (simp add: addTag_def AList.update_conv')
  next
    case False
    then have m: "map_of (tags st) i = Some h" using c by simp
    have "toLowerCase (tag_name h) \<noteq> toLowerCase (tag_name g)"
      by (rule nameIsNew_stored [OF assms(2) m False])
    then show ?thesis using tagIndex_okD [OF assms(1) m]
      by (simp add: addTag_def AList.update_conv')
  qed
qed

lemma tagIndex_ok_updateTag:
  assumes "tagIndex_ok st" "nameIsNew st g"
  shows "tagIndex_ok (IndexStore_updateTag g st)"
proof (rule tagIndex_okI)
  show "distinct (map fst (tags (IndexStore_updateTag g st)))"
    using assms(1)
    by (simp add: IndexStore_updateTag_def Let_def tagIndex_ok_def AList.distinct_update)
next
  let ?st = "IndexStore_updateTag g st"
  fix i h assume a: "map_of (tags ?st) i = Some h"
  then have c: "(i = tag_id g \<and> h = g) \<or> (i \<noteq> tag_id g \<and> map_of (tags st) i = Some h)"
    by (auto simp: IndexStore_updateTag_def Let_def AList.update_conv' split: if_splits)
  show "tag_id h = i \<and> map_of (tagByName ?st) (toLowerCase (tag_name h)) = Some h"
  proof (cases "i = tag_id g")
    case True
    then show ?thesis using c by (simp add: IndexStore_updateTag_def Let_def AList.update_conv')
  next
    case False
    then have m: "map_of (tags st) i = Some h" using c by simp
    have n: "toLowerCase (tag_name h) \<noteq> toLowerCase (tag_name g)"
      by (rule nameIsNew_stored [OF assms(2) m False])
    note ok = tagIndex_okD [OF assms(1) m]
    show ?thesis
    proof (cases "map_of (tags st) (tag_id g)")
      case None
      then show ?thesis using n ok
        by (simp add: IndexStore_updateTag_def Let_def AList.update_conv')
    next
      case (Some old)
      have "toLowerCase (tag_name h) \<noteq> toLowerCase (tag_name old)"
        using tagIndex_ok_names [OF assms(1) Some m] False by simp
      then show ?thesis using n ok Some
        by (simp add: IndexStore_updateTag_def Let_def AList.update_conv' AList.delete_conv')
    qed
  qed
qed

lemma tagIndex_ok_removeTag:
  assumes "tagIndex_ok st"
  shows "tagIndex_ok (removeTag i st)"
proof (cases "map_of (tags st) i")
  case None
  then show ?thesis using assms by (simp add: removeTag_def)
next
  case (Some old)
  show ?thesis
  proof (rule tagIndex_okI)
    show "distinct (map fst (tags (removeTag i st)))"
      using assms Some by (simp add: removeTag_def tagIndex_ok_def AList.distinct_delete)
  next
    fix j h assume "map_of (tags (removeTag i st)) j = Some h"
    then have j: "j \<noteq> i" and m: "map_of (tags st) j = Some h"
      using Some by (auto simp: removeTag_def AList.delete_conv' split: if_splits)
    have "toLowerCase (tag_name h) \<noteq> toLowerCase (tag_name old)"
      using tagIndex_ok_names [OF assms Some m] j by simp
    then show "tag_id h = j \<and>
        map_of (tagByName (removeTag i st)) (toLowerCase (tag_name h)) = Some h"
      using Some tagIndex_okD [OF assms m] by (simp add: removeTag_def AList.delete_conv')
  qed
qed

lemma nameIsNew_unknown_name:
  assumes "tagIndex_ok st" "getTagByName st (tag_name g) = None"
  shows "nameIsNew st g"
  unfolding nameIsNew_def list_all_iff
proof (intro ballI)
  fix x assume x: "x \<in> set (tags st)"
  obtain j h where xh: "x = (j, h)" by (cases x)
  have d: "distinct (map fst (tags st))" using assms(1) by (simp add: tagIndex_ok_def)
  have m: "map_of (tags st) j = Some h" using x xh d by simp
  have "map_of (tagByName st) (toLowerCase (tag_name h)) = Some h"
    by (rule tagIndex_okD(2) [OF assms(1) m])
  then have "toLowerCase (tag_name h) \<noteq> toLowerCase (tag_name g)"
    using assms(2) by (auto simp: getTagByName_def)
  then show "case x of (j, h) \<Rightarrow> j = tag_id g \<or> toLowerCase (tag_name h) \<noteq> toLowerCase (tag_name g)"
    using xh by simp
qed

lemma tagIndex_ok_getOrCreate:
  assumes "tagIndex_ok st"
  shows "tagIndex_ok (snd (TagService_getOrCreate now newId name col st))"
proof (cases "getTagByName st name")
  case (Some g)
  then show ?thesis using assms by (simp add: TagService_getOrCreate_def)
next
  case None
  let ?g = "createTag now newId \<lparr> cg_name = name, cg_color = col \<rparr>"
  have "getTagByName st (tag_name ?g) = None" using None by (simp add: createTag_def)
  then have "nameIsNew st ?g" by (rule nameIsNew_unknown_name [OF assms])
  then have "tagIndex_ok (addTag ?g st)" by (rule tagIndex_ok_addTag [OF assms])
  then show ?thesis using None assms
    by (simp add: TagService_getOrCreate_def TagService_create_def Let_def)
qed

lemma tagIndex_ok_other_calls:
  "tagIndex_ok (applyOp x st) = tagIndex_ok st"
  "tagIndex_ok (addProject p st) = tagIndex_ok st"
  "tagIndex_ok (IndexStore_updateProject p st) = tagIndex_ok st"
  "tagIndex_ok (removeProject i st) = tagIndex_ok st"
proof -
  show "tagIndex_ok (applyOp x st) = tagIndex_ok st"
    by (cases x)
       (simp_all add: tagIndex_ok_def addTask_def IndexStore_updateTask_def removeTask_def
          updateTaskIndexes_def removeTaskFromIndexes_def Let_def split: option.splits)
qed (simp_all add: tagIndex_ok_def addProject_def IndexStore_updateProject_def removeProject_def)

lemma tagIndex_ok_runCalls:
  "tagIndex_ok st \<Longrightarrow> namesDistinct st calls \<Longrightarrow> tagIndex_ok (runCalls calls st)"
proof (induction calls arbitrary: st)
  case Nil
  then show ?case by (simp add: runCalls_def)
next
  case (Cons c calls)
  have step: "tagIndex_ok (applyCall c st)" "namesDistinct (applyCall c st) calls"
    using Cons.prems
    by (cases c; simp add: tagIndex_ok_other_calls tagIndex_ok_addTag tagIndex_ok_updateTag
          tagIndex_ok_removeTag tagIndex_ok_getOrCreate)+
  from Cons.IH [OF step] show ?case by (simp add: runCalls_def)
qed

lemma getOrCreate_in_step:
  assumes "tagIndex_ok st" "map_of (tags st) i = Some g" "toLowerCase s = toLowerCase (tag_name g)"
  shows "TagService_getOrCreate now newId s col st = (Inr g, st)"
proof -
  have "getTagByName st s = Some g"
    using tagIndex_okD(2) [OF assms(1,2)] assms(3) by (simp add: getTagByName_def)
  then show ?thesis by (simp add: TagService_getOrCreate_def)
qed

text \<open>
  C10 (as amended).  Take any sequence of calls on the empty store (task, project and tag
  operations and \<open>getOrCreate\<close>) in which every tag handed to \<open>addTag\<close> or \<open>updateTag\<close> has,
  at that point, a name that differs up to letter case from the name of every other stored
  tag.  In the store it leaves, for every stored tag \<open>g\<close> and every string \<open>s\<close> equal to
  its name up to letter case, \<open>getOrCreate s\<close> returns \<open>g\<close>, whatever the colour, and leaves
  the store unchanged; a second call does the same.
\<close>

theorem getOrCreate_existing:
  assumes "namesDistinct emptyStore calls"
  shows "\<forall>i g s. map_of (tags (runCalls calls emptyStore)) i = Some g \<and>
            toLowerCase s = toLowerCase (tag_name g) \<longrightarrow>
          TagService_getOrCreate now newId s col (runCalls calls emptyStore) =
            (Inr g, runCalls calls emptyStore) \<and>
          TagService_getOrCreate now' newId' s col'
            (snd (TagService_getOrCreate now newId s col (runCalls calls emptyStore))) =
            (Inr g, runCalls calls emptyStore)"
proof (intro allI impI)
  fix i g s
  assume a: "map_of (tags (runCalls calls emptyStore)) i = Some g \<and>
            toLowerCase s = toLowerCase (tag_name g)"
  have ok: "tagIndex_ok (runCalls calls emptyStore)"
    by (rule tagIndex_ok_runCalls [OF tagIndex_ok_emptyStore assms])
  have 1: "\<And>n k c. TagService_getOrCreate n k s c (runCalls calls emptyStore) =
            (Inr g, runCalls calls emptyStore)"
    using getOrCreate_in_step [OF ok] a by blast
  show "TagService_getOrCreate now newId s col (runCalls calls emptyStore) =
            (Inr g, runCalls calls emptyStore) \<and>
          TagService_getOrCreate now' newId' s col'
            (snd (TagService_getOrCreate now newId s col (runCalls calls emptyStore))) =
            (Inr g, runCalls calls emptyStore)"
    by (simp add: 1)
qed


theorem getOrCreate_existing_witness:
  "namesDistinct emptyStore exTagCalls \<and>
   map (\<lambda>(i, g). (i, tag_name g)) (tags (runCalls exTagCalls emptyStore)) =
     [(''g1'', ''urgent''), (''g3'', ''Work'')] \<and>
   map_of (tags (runCalls exTagCalls emptyStore)) ''g1'' = Some exTagA \<and>
   toLowerCase ''URGENT'' = toLowerCase (tag_name exTagA) \<and>
   TagService_getOrCreate 5000 ''g4'' ''URGENT'' (Some ''blue'') (runCalls exTagCalls emptyStore) =
     (Inr exTagA, runCalls exTagCalls emptyStore)"
proof -
  have h: "namesDistinct emptyStore exTagCalls" by code_simp
  have e: "map (\<lambda>(i, g). (i, tag_name g)) (tags (runCalls exTagCalls emptyStore)) =
     [(''g1'', ''urgent''), (''g3'', ''Work'')]" by code_simp
  have m: "map_of (tags (runCalls exTagCalls emptyStore)) ''g1'' = Some exTagA" by code_simp
  have l: "toLowerCase ''URGENT'' = toLowerCase (tag_name exTagA)" by code_simp
  note th = getOrCreate_existing [OF h, of 5000 "''g4''" "Some ''blue''", rule_format, of "''g1''" exTagA "''URGENT''"]
  from th h e m l show ?thesis by blast
qed

text \<open>
  C10 as stated fails where two stored tags have names equal up to case, which
  \<open>TagService.create\<close> permits.  After creating \<open>urgent\<close> and \<open>Urgent\<close>, the first tag is in
  the store and \<open>getOrCreate urgent\<close> returns the second.  After removing the second, the
  name index has no entry for the first, and \<open>getOrCreate URGENT\<close> creates a third tag whose
  name differs from the first only in case.
\<close>

theorem getOrCreate_shadowed_tag_counterexample:
  "map_of (tags exTagStore2) ''g1'' = Some exTagA \<and>
   toLowerCase ''urgent'' = toLowerCase (tag_name exTagA) \<and>
   TagService_getOrCreate 3000 ''g3'' ''urgent'' None exTagStore2 = (Inr exTagB, exTagStore2) \<and>
   exTagB \<noteq> exTagA \<and>
   map_of (tags (removeTag ''g2'' exTagStore2)) ''g1'' = Some exTagA \<and>
   fst (TagService_getOrCreate 3000 ''g3'' ''URGENT'' None (removeTag ''g2'' exTagStore2)) =
     Inr (createTag 3000 ''g3'' \<lparr> cg_name = ''URGENT'', cg_color = None \<rparr>) \<and>
   map_of (tags (snd (TagService_getOrCreate 3000 ''g3'' ''URGENT'' None
                        (removeTag ''g2'' exTagStore2)))) ''g3'' =
     Some (createTag 3000 ''g3'' \<lparr> cg_name = ''URGENT'', cg_color = None \<rparr>)"
  by code_simp

section \<open>The text query parser\<close>

lemma join_snoc: "us \<noteq> [] \<Longrightarrow> join sep (us @ [t]) = join sep us @ sep @ t"
  by (induction us) auto

lemma join_nonempty: "us \<noteq> [] \<Longrightarrow> \<forall>u \<in> set us. u \<noteq> [] \<Longrightarrow> join sep us \<noteq> []"
  by (cases us) auto

lemma q_text_addTagFilter: "q_text (addTagFilter st n query) = q_text query"
  by (simp add: addTagFilter_def split: option.splits)

lemma parseToken_recognized:
  "recognized token \<Longrightarrow> parseToken st rt token query = Inr query' \<Longrightarrow> q_text query' = q_text query"
  unfolding recognized_def parseToken_def
  by (auto simp: q_text_addTagFilter split: option.splits list.splits sum.splits if_splits)

lemma parseToken_unrecognized:
  "\<not> recognized token \<Longrightarrow> parseToken st rt token query = Inr (appendText token query)"
  unfolding recognized_def parseToken_def by simp

lemma dash_unrecognized: "startsWith token ''-'' \<Longrightarrow> \<not> recognized token"
  by (cases token) (auto simp: recognized_def startsWith_def)

lemma q_text_appendText:
  assumes "q_text query = freeText us" "\<forall>u \<in> set us. u \<noteq> []"
  shows "q_text (appendText token query) = freeText (us @ [token])"
proof (cases "us = []")
  case True
  then show ?thesis using assms by (simp add: appendText_def freeText_def truthy_def)
next
  case False
  then have "join '' '' us \<noteq> []" using assms(2) by (rule join_nonempty)
  then show ?thesis using assms False
    by (simp add: appendText_def freeText_def truthy_def join_snoc)
qed

lemma q_text_parseTokens:
  assumes "parseTokens st rt ts query = Inr result"
    and "\<forall>t \<in> set ts. t \<noteq> []" "q_text query = freeText us" "\<forall>u \<in> set us. u \<noteq> []"
  shows "q_text result = freeText (us @ filter (\<lambda>t. \<not> recognized t) ts)"
  using assms
proof (induction ts arbitrary: query us)
  case Nil
  then show ?case by simp
next
  case (Cons t ts)
  from Cons.prems(1) obtain q1 where q1: "parseToken st rt t query = Inr q1"
    and rest: "parseTokens st rt ts q1 = Inr result"
    by (auto split: sum.splits)
  have ne: "\<forall>t \<in> set ts. t \<noteq> []" using Cons.prems(2) by simp
  show ?case
  proof (cases "recognized t")
    case True
    then have "q_text q1 = freeText us"
      using Cons.prems(3) parseToken_recognized [OF True q1] by simp
    from Cons.IH [OF rest ne this Cons.prems(4)] True show ?thesis by simp
  next
    case False
    have "q1 = appendText t query" using parseToken_unrecognized [OF False, of st rt query] q1 by simp
    then have 1: "q_text q1 = freeText (us @ [t])"
      using Cons.prems by (simp add: q_text_appendText)
    have 2: "\<forall>u \<in> set (us @ [t]). u \<noteq> []" using Cons.prems by simp
    from Cons.IH [OF rest ne 1 2] False show ?thesis by simp
  qed
qed

lemma splitWs_nonempty:
  "s \<noteq> [] \<Longrightarrow> \<not> isSpace (last s) \<Longrightarrow> \<forall>t \<in> set (splitWs s cur). t \<noteq> []"
proof (induction s arbitrary: cur)
  case Nil
  then show ?case by simp
next
  case (Cons c cs)
  show ?case
  proof (cases "cs = []")
    case True
    then show ?thesis using Cons.prems by simp
  next
    case False
    then have "\<not> isSpace (last cs)" using Cons.prems by simp
    with False Cons.IH show ?thesis by simp
  qed
qed

lemma trim_last: "trim s \<noteq> [] \<Longrightarrow> \<not> isSpace (last (trim s))"
proof -
  assume a: "trim s \<noteq> []"
  let ?ys = "dropWhile isSpace (rev (dropWhile isSpace s))"
  have ne: "?ys \<noteq> []" using a by (simp add: trim_def)
  then have "\<not> isSpace (hd ?ys)" by (rule hd_dropWhile)
  moreover have "last (trim s) = hd ?ys" using ne by (simp add: trim_def last_rev)
  ultimately show ?thesis by simp
qed

lemma tokenize_cases: "tokenize s = [[]] \<or> (\<forall>t \<in> set (tokenize s). t \<noteq> [])"
proof (cases "trim s = []")
  case True
  then show ?thesis by (simp add: tokenize_def)
next
  case False
  then show ?thesis using splitWs_nonempty [OF False trim_last [OF False]]
    by (simp add: tokenize_def)
qed

lemma q_text_parseQuery:
  assumes "parseQuery st rt s = Inr query"
  shows "q_text query = freeText (filter (\<lambda>t. \<not> recognized t) (tokenize s))"
proof -
  have e: "q_text emptyQuery = freeText []" by (simp add: emptyQuery_def freeText_def)
  from tokenize_cases [of s] show ?thesis
  proof
    assume t: "tokenize s = [[]]"
    have "\<not> recognized []" by (simp add: recognized_def startsWith_def)
    then have "parseToken st rt [] emptyQuery = Inr (appendText [] emptyQuery)"
      by (rule parseToken_unrecognized)
    then have "query = appendText [] emptyQuery"
      using assms t by (simp add: parseQuery_def)
    then show ?thesis using t
      by (simp add: appendText_def emptyQuery_def truthy_def freeText_def recognized_def
          startsWith_def)
  next
    assume "\<forall>t \<in> set (tokenize s). t \<noteq> []"
    from q_text_parseTokens [OF assms [unfolded parseQuery_def] this e] show ?thesis by simp
  qed
qed

lemma parseTokens_returns:
  assumes "\<forall>t \<in> set ts. startsWith t ''due:'' \<longrightarrow> parseDueDate rt (drop 4 t) \<noteq> Inl e"
  shows "parseTokens st rt ts query \<noteq> Inl e"
  using assms
proof (induction ts arbitrary: query)
  case Nil
  then show ?case by simp
next
  case (Cons t ts)
  have "parseToken st rt t query \<noteq> Inl e"
    using Cons.prems unfolding parseToken_def
    by (auto split: option.splits list.splits sum.splits)
  with Cons show ?case by (auto split: sum.splits)
qed

lemma unknown_tag_ignored:
  "startsWith token ''tag:'' \<Longrightarrow> getTagByName st (drop 4 token) = None \<Longrightarrow>
   parseToken st rt token query = Inr query"
  by (cases token) (auto simp: parseToken_def addTagFilter_def startsWith_def)

lemma startsWith_nth: "startsWith t p \<Longrightarrow> i < length p \<Longrightarrow> t ! i = p ! i"
  by (metis nth_take startsWith_def)

lemma project_prefix_only:
  assumes "startsWith t ''project:''"
  shows "\<not> startsWith t ''status:''" "\<not> startsWith t ''priority:''" "\<not> startsWith t ''tag:''"
proof -
  have 0: "t ! 0 = CHR ''p''" using startsWith_nth [OF assms, of 0] by simp
  have 2: "t ! 2 = CHR ''o''" using startsWith_nth [OF assms, of 2] by simp
  show "\<not> startsWith t ''status:''" using startsWith_nth [of t "''status:''" 0] 0 by auto
  show "\<not> startsWith t ''priority:''" using startsWith_nth [of t "''priority:''" 2] 2 by auto
  show "\<not> startsWith t ''tag:''" using startsWith_nth [of t "''tag:''" 0] 0 by auto
qed

lemma unknown_project_ignored:
  "startsWith token ''project:'' \<Longrightarrow>
   find (\<lambda>p. toLowerCase (project_name p) = toLowerCase (drop 8 token)) (getAllProjects st) = None \<Longrightarrow>
   parseToken st rt token query = Inr query"
  by (simp add: parseToken_def project_prefix_only)

lemma parseQuery_when_it_returns:
  "(parseQuery st rt s = Inr query \<longrightarrow>
      q_text query = freeText (filter (\<lambda>t. \<not> recognized t) (tokenize s))) \<and>
   ((\<forall>t \<in> set (tokenize s). startsWith t ''due:'' \<longrightarrow>
        (\<exists>r. parseDueDate rt (drop 4 t) = Inr r)) \<longrightarrow> (\<exists>q. parseQuery st rt s = Inr q)) \<and>
   (\<forall>token q. startsWith token ''-'' \<longrightarrow>
      \<not> recognized token \<and> parseToken st rt token q = Inr (appendText token q)) \<and>
   (\<forall>token q. startsWith token ''tag:'' \<and> getTagByName st (drop 4 token) = None \<longrightarrow>
      parseToken st rt token q = Inr q) \<and>
   (\<forall>token q. startsWith token ''project:'' \<and>
      find (\<lambda>p. toLowerCase (project_name p) = toLowerCase (drop 8 token)) (getAllProjects st) = None
      \<longrightarrow> parseToken st rt token q = Inr q)"
proof (intro conjI allI impI)
  assume "parseQuery st rt s = Inr query"
  then show "q_text query = freeText (filter (\<lambda>t. \<not> recognized t) (tokenize s))"
    by (rule q_text_parseQuery)
next
  assume a: "\<forall>t \<in> set (tokenize s). startsWith t ''due:'' \<longrightarrow>
        (\<exists>r. parseDueDate rt (drop 4 t) = Inr r)"
  have "parseQuery st rt s \<noteq> Inl e" for e
    unfolding parseQuery_def by (rule parseTokens_returns) (use a in auto)
  then show "\<exists>q. parseQuery st rt s = Inr q"
    by (cases "parseQuery st rt s") auto
next
  fix token :: string and q assume "startsWith token ''-''"
  then show "\<not> recognized token" by (rule dash_unrecognized)
next
  fix token :: string and q assume "startsWith token ''-''"
  then show "parseToken st rt token q = Inr (appendText token q)"
    by (simp add: parseToken_unrecognized dash_unrecognized)
next
  fix token :: string and q
  assume "startsWith token ''tag:'' \<and> getTagByName st (drop 4 token) = None"
  then show "parseToken st rt token q = Inr q" by (simp add: unknown_tag_ignored)
next
  fix token :: string and q
  assume "startsWith token ''project:'' \<and>
      find (\<lambda>p. toLowerCase (project_name p) = toLowerCase (drop 8 token)) (getAllProjects st) = None"
  then show "parseToken st rt token q = Inr q" by (simp add: unknown_project_ignored)
qed

text \<open>
  C8.  The claim: for every query string, \<open>parseQuery\<close> makes the free-text filter of the
  tokens that start with no recognised prefix, dash tokens included, and raises no error.
  The code does so whenever it returns (\<open>parseQuery_when_it_returns\<close>), but it does not
  always return: a \<open>due:\<close> token of the shape \<^verbatim>\<open>YYYY-MM-DD\<close> that names no date, such as
  \<^verbatim>\<open>due:2024-13-01\<close>, makes \<^verbatim>\<open>toISOString\<close> throw \<^verbatim>\<open>RangeError\<close> inside
  \<open>parseDueDate\<close>.  On \<^verbatim>\<open>fix due:2024-13-01 -bug\<close> the claim gives the free text
  \<^verbatim>\<open>fix -bug\<close>; \<open>parseQuery\<close> and \<open>searchByString\<close> throw instead.  With the date
  \<^verbatim>\<open>2024-12-01\<close> the same query parses as the claim says.
\<close>

theorem parseQuery_invalid_due_date_throws:
  "tokenize ''fix due:2024-13-01 -bug'' = [''fix'', ''due:2024-13-01'', ''-bug''] \<and>
   filter (\<lambda>t. \<not> recognized t) (tokenize ''fix due:2024-13-01 -bug'') = [''fix'', ''-bug''] \<and>
   isIsoDate ''2024-13-01'' \<and>
   dateOfString exRuntime ''2024-13-01'' = None \<and>
   parseDueDate exRuntime ''2024-13-01'' = Inl (RangeError ''Invalid time value'') \<and>
   parseQuery exParseStore exRuntime ''fix due:2024-13-01 -bug'' =
     Inl (RangeError ''Invalid time value'') \<and>
   searchByString exParseStore exRuntime 3000 ''fix due:2024-13-01 -bug'' =
     Inl (RangeError ''Invalid time value'') \<and>
   parseQuery exParseStore exRuntime ''fix due:2024-12-01 -bug'' =
     Inr (emptyQuery\<lparr> q_text := Some ''fix -bug'', q_dueBefore := Some 1733011200000 \<rparr>)"
  by code_simp

end
